theory Spec2Isabelle
  imports Complex_Main
begin

section \<open>Roadmap navigation (examples/Roadmap.cc): data model\<close>

text \<open>
  The source computes with C++ \<open>float\<close>. The model idealises the finite floats as the
  reals and keeps the one infinite value the code uses,
  \<open>std::numeric_limits<float>::infinity()\<close>, as a constructor of its own: rounding,
  overflow and NaN inputs are outside the model. The loops run in the order the source
  writes them (the \<open>omp parallel for\<close> pragmas apply only under \<open>_OPENMP\<close>).
\<close>

datatype float = Finite real | Infinity

instantiation float :: linorder
begin

fun less_eq_float :: "float \<Rightarrow> float \<Rightarrow> bool" where
  "less_eq_float (Finite a) (Finite b) = (a \<le> b)"
| "less_eq_float Infinity (Finite b) = False"
| "less_eq_float a Infinity = True"

definition less_float :: "float \<Rightarrow> float \<Rightarrow> bool" where
  "less_float a b = (a \<le> b \<and> \<not> b \<le> a)"

instance
proof
  fix x y z :: float
  show "(x < y) = (x \<le> y \<and> \<not> y \<le> x)"
    by (simp add: less_float_def)
  show "x \<le> x"
    by (cases x) simp_all
  show "x \<le> y \<Longrightarrow> y \<le> z \<Longrightarrow> x \<le> z"
    by (cases x; cases y; cases z) simp_all
  show "x \<le> y \<Longrightarrow> y \<le> x \<Longrightarrow> x = y"
    by (cases x; cases y) simp_all
  show "x \<le> y \<or> y \<le> x"
    by (cases x; cases y) auto
qed

end

text \<open>Float addition: a finite sum, or infinity as soon as one operand is infinite.\<close>

fun fadd :: "float \<Rightarrow> float \<Rightarrow> float" where
  "fadd (Finite a) (Finite b) = Finite (a + b)"
| "fadd a b = Infinity"

text \<open>
  Modelled from the spec: the class \<open>RVO::Vector2\<close> of Vector2.h, which is not among the
  sources; the spec has it as a 2D position or vector. Its default constructor
  \<open>Vector2()\<close> is the zero vector.
\<close>

type_synonym Vector2 = "real \<times> real"

text \<open>
  Modelled from the spec: \<open>operator-\<close> of Vector2.h (not among the sources), the
  difference of two vectors.
\<close>

definition vsub :: "Vector2 \<Rightarrow> Vector2 \<Rightarrow> Vector2" where
  "vsub a b = (fst a - fst b, snd a - snd b)"

text \<open>
  Modelled from the spec: \<open>RVO::absSq\<close> of Vector2.h (not among the sources), which the
  spec uses as the squared Euclidean distance.
\<close>

definition absSq :: "Vector2 \<Rightarrow> real" where
  "absSq v = fst v * fst v + snd v * snd v"

text \<open>
  Modelled from the spec: \<open>RVO::abs\<close> of Vector2.h (not among the sources), which the spec
  uses as the Euclidean distance.
\<close>

definition abs_v :: "Vector2 \<Rightarrow> real" where
  "abs_v v = sqrt (absSq v)"

text \<open>
  Modelled from the spec: \<open>RVO::normalize\<close> of Vector2.h (not among the sources), which the
  spec uses as the unit direction of a vector. A unit direction is the vector divided by
  its length, so there is none at the zero vector (the float division 0/0 is not a number):
  the model returns \<open>NotANumber\<close> there, and \<open>Velocity\<close> of the unit vector everywhere
  else.
\<close>

datatype velocity = Velocity Vector2 | NotANumber

definition normalize_v :: "Vector2 \<Rightarrow> velocity" where
  "normalize_v v =
     (if abs_v v = 0 then NotANumber
      else Velocity (fst v / abs_v v, snd v / abs_v v))"

text \<open>
  The class \<open>RoadmapVertex\<close> of the source. Vertex indices and goal ids, ints of the
  source that are never negative, are natural numbers.
\<close>

record RoadmapVertex =
  position :: Vector2
  neighbors :: "nat list"
  distToGoal :: "float list"

text \<open>
  The simulator \<open>RVO::RVOSimulator\<close> (RVOSimulator.h, not among the sources) is an
  external collaborator. The functions of this file read it through four queries, which the
  model takes as the fields of a record: nothing is assumed of them, and
  \<open>queryVisibility\<close> is the opaque line-of-sight test.
\<close>

record RVOSimulator =
  getNumAgents :: nat
  getAgentPosition :: "nat \<Rightarrow> Vector2"
  getAgentRadius :: "nat \<Rightarrow> real"
  queryVisibility :: "Vector2 \<Rightarrow> Vector2 \<Rightarrow> real \<Rightarrow> bool"

section \<open>buildRoadmap, first loop: connecting mutually visible vertices\<close>

text \<open>\<open>std::vector::resize(n, x)\<close>: truncate to \<open>n\<close> elements or pad with \<open>x\<close>.\<close>

definition resize :: "nat \<Rightarrow> 'a \<Rightarrow> 'a list \<Rightarrow> 'a list" where
  "resize n x xs = take n xs @ replicate (n - length xs) x"

text \<open>
  The inner loop over \<open>j\<close> (lines 247 to 252) for a fixed \<open>i\<close>: append \<open>j\<close> to
  \<open>roadmap[i].neighbors\<close> when the visibility query succeeds. There is no test
  \<open>i != j\<close> in the source.
\<close>

fun connect_inner :: "RVOSimulator \<Rightarrow> nat \<Rightarrow> nat list \<Rightarrow> RoadmapVertex list \<Rightarrow> RoadmapVertex list" where
  "connect_inner sim i [] roadmap = roadmap"
| "connect_inner sim i (j # js) roadmap =
     connect_inner sim i js
       (if queryVisibility sim (position (roadmap ! i)) (position (roadmap ! j))
             (getAgentRadius sim 0)
        then roadmap[i := (roadmap ! i)\<lparr>neighbors := neighbors (roadmap ! i) @ [j]\<rparr>]
        else roadmap)"

text \<open>
  The outer loop over \<open>i\<close> (lines 246 to 256): the inner loop, then the resize of
  \<open>roadmap[i].distToGoal\<close> to four entries, new ones infinite.
\<close>

fun connect_outer :: "RVOSimulator \<Rightarrow> nat list \<Rightarrow> RoadmapVertex list \<Rightarrow> RoadmapVertex list" where
  "connect_outer sim [] roadmap = roadmap"
| "connect_outer sim (i # ks) roadmap =
     connect_outer sim ks
       (let rm = connect_inner sim i [0..<length roadmap] roadmap
        in rm[i := (rm ! i)\<lparr>distToGoal := resize 4 Infinity (distToGoal (rm ! i))\<rparr>])"

definition buildRoadmap_connect :: "RVOSimulator \<Rightarrow> RoadmapVertex list \<Rightarrow> RoadmapVertex list" where
  "buildRoadmap_connect sim roadmap = connect_outer sim [0..<length roadmap] roadmap"

section \<open>buildRoadmap, second loop: Dijkstra's algorithm from each of the four goals\<close>

text \<open>
  \<open>std::multimap<float, int> Q\<close>: a list of (key, vertex) entries in ascending key order.
  \<open>Q.insert\<close> puts a new entry behind the entries of equal key, \<open>Q.begin()\<close> is the
  head of the list.
\<close>

type_synonym queue = "(float \<times> nat) list"

fun Q_insert :: "float \<times> nat \<Rightarrow> queue \<Rightarrow> queue" where
  "Q_insert e [] = [e]"
| "Q_insert e (p # ps) = (if fst e < fst p then e # p # ps else p # Q_insert e ps)"

text \<open>
  The state of one run: the roadmap (whose \<open>distToGoal\<close> column the run writes), the
  queue, and \<open>posInQ\<close>. An iterator of \<open>posInQ\<close> is \<open>None\<close> for \<open>Q.end()\<close> and otherwise
  the entry it points to; \<open>Q.erase(posInQ[v])\<close> removes that entry.
\<close>

record dijkstra_state =
  s_roadmap :: "RoadmapVertex list"
  s_Q :: queue
  s_posInQ :: "(float \<times> nat) option list"

text \<open>The body of the loop over the neighbours of \<open>u\<close> (lines 277 to 290).\<close>

definition relax :: "nat \<Rightarrow> nat \<Rightarrow> nat \<Rightarrow> dijkstra_state \<Rightarrow> dijkstra_state" where
  "relax i u v s =
     (let roadmap = s_roadmap s;
          distUV = abs_v (vsub (position (roadmap ! v)) (position (roadmap ! u)));
          newDist = fadd (distToGoal (roadmap ! u) ! i) (Finite distUV)
      in if distToGoal (roadmap ! v) ! i > newDist
         then s\<lparr>s_roadmap :=
                  roadmap[v := (roadmap ! v)\<lparr>distToGoal := (distToGoal (roadmap ! v))[i := newDist]\<rparr>],
                s_Q :=
                  Q_insert (newDist, v)
                    (case s_posInQ s ! v of None \<Rightarrow> s_Q s | Some e \<Rightarrow> remove1 e (s_Q s)),
                s_posInQ := (s_posInQ s)[v := Some (newDist, v)]\<rparr>
         else s)"

text \<open>
  The loop over the neighbours of \<open>u\<close> (lines 276 to 291). Indexing a vector out of
  range is undefined behaviour in the source: the model has no result (\<open>None\<close>) there.
\<close>

fun relax_loop :: "nat \<Rightarrow> nat \<Rightarrow> nat list \<Rightarrow> dijkstra_state \<Rightarrow> dijkstra_state option" where
  "relax_loop i u [] s = Some s"
| "relax_loop i u (v # vs) s =
     (if v < length (s_roadmap s) \<and> v < length (s_posInQ s) \<and>
         i < length (distToGoal (s_roadmap s ! v)) \<and> i < length (distToGoal (s_roadmap s ! u))
      then relax_loop i u vs (relax i u v s)
      else None)"

text \<open>
  The loop \<open>while (!Q.empty())\<close> (lines 271 to 292). It has no structural bound, so it
  is a partial function: \<open>None\<close> also stands for a run that never ends.
\<close>

partial_function (option) dijkstra_loop :: "nat \<Rightarrow> dijkstra_state \<Rightarrow> dijkstra_state option" where
  "dijkstra_loop i s =
     (case s_Q s of
        [] \<Rightarrow> Some s
      | e # rest \<Rightarrow>
          if snd e < length (s_roadmap s) \<and> snd e < length (s_posInQ s)
          then Option.bind
                 (relax_loop i (snd e) (neighbors (s_roadmap s ! snd e))
                    (s\<lparr>s_Q := rest, s_posInQ := (s_posInQ s)[snd e := None]\<rparr>))
                 (dijkstra_loop i)
          else None)"

text \<open>One iteration of the loop over the goals (lines 264 to 292).\<close>

definition dijkstra :: "nat \<Rightarrow> RoadmapVertex list \<Rightarrow> RoadmapVertex list option" where
  "dijkstra i roadmap =
     (if i < length roadmap \<and> i < length (distToGoal (roadmap ! i))
      then map_option s_roadmap
             (dijkstra_loop i
                \<lparr>s_roadmap =
                   roadmap[i := (roadmap ! i)\<lparr>distToGoal := (distToGoal (roadmap ! i))[i := Finite 0]\<rparr>],
                 s_Q = Q_insert (Finite 0, i) [],
                 s_posInQ = (replicate (length roadmap) None)[i := Some (Finite 0, i)]\<rparr>)
      else None)"

fun dijkstra_goals :: "nat list \<Rightarrow> RoadmapVertex list \<Rightarrow> RoadmapVertex list option" where
  "dijkstra_goals [] roadmap = Some roadmap"
| "dijkstra_goals (i # ks) roadmap = Option.bind (dijkstra i roadmap) (dijkstra_goals ks)"

definition buildRoadmap :: "RVOSimulator \<Rightarrow> RoadmapVertex list \<Rightarrow> RoadmapVertex list option" where
  "buildRoadmap sim roadmap = dijkstra_goals [0..<4] (buildRoadmap_connect sim roadmap)"

section \<open>setPreferredVelocities\<close>

text \<open>
  The value the selection loop compares for vertex \<open>j\<close> and agent \<open>i\<close>: the distance
  from the agent to the vertex plus the vertex's distance to the agent's goal.
\<close>

definition cost :: "RVOSimulator \<Rightarrow> RoadmapVertex list \<Rightarrow> nat list \<Rightarrow> nat \<Rightarrow> nat \<Rightarrow> float" where
  "cost sim roadmap goals i j =
     fadd (Finite (abs_v (vsub (position (roadmap ! j)) (getAgentPosition sim i))))
          (distToGoal (roadmap ! j) ! (goals ! i))"

definition visible :: "RVOSimulator \<Rightarrow> RoadmapVertex list \<Rightarrow> nat \<Rightarrow> nat \<Rightarrow> bool" where
  "visible sim roadmap i j =
     queryVisibility sim (getAgentPosition sim i) (position (roadmap ! j)) (getAgentRadius sim i)"

text \<open>
  The selection loop (lines 309 to 321) with its two variables \<open>minDist\<close> and
  \<open>minVertex\<close>; \<open>minVertex = -1\<close> of the source is \<open>None\<close>. Every iteration reads
  \<open>roadmap[j].distToGoal[goals[i]]\<close>: out of range there is no result.
\<close>

fun minVertex_loop ::
  "RVOSimulator \<Rightarrow> RoadmapVertex list \<Rightarrow> nat list \<Rightarrow> nat \<Rightarrow> nat list \<Rightarrow> float \<times> nat option
     \<Rightarrow> (float \<times> nat option) option" where
  "minVertex_loop sim roadmap goals i [] acc = Some acc"
| "minVertex_loop sim roadmap goals i (j # js) acc =
     (if i < length goals \<and> goals ! i < length (distToGoal (roadmap ! j))
      then minVertex_loop sim roadmap goals i js
             (if cost sim roadmap goals i j < fst acc \<and> visible sim roadmap i j
              then (cost sim roadmap goals i j, Some j)
              else acc)
      else None)"

text \<open>
  The preferred velocity of agent \<open>i\<close> as set by lines 306 to 341, before the random
  perturbation of lines 343 to 351 is added. The branch that steers straight to the goal
  reads \<open>roadmap[goals[i]]\<close>: out of range there is no result.
\<close>

definition prefVelocity ::
  "RVOSimulator \<Rightarrow> RoadmapVertex list \<Rightarrow> nat list \<Rightarrow> nat \<Rightarrow> velocity option" where
  "prefVelocity sim roadmap goals i =
     (case minVertex_loop sim roadmap goals i [0..<length roadmap] (Infinity, None) of
        None \<Rightarrow> None
      | Some (minDist, None) \<Rightarrow> Some (Velocity (0, 0))
      | Some (minDist, Some minVertex) \<Rightarrow>
          if absSq (vsub (position (roadmap ! minVertex)) (getAgentPosition sim i)) = 0
          then if \<not> i < length goals then None
               else if minVertex = goals ! i then Some (Velocity (0, 0))
               else if \<not> goals ! i < length roadmap then None
               else Some (normalize_v (vsub (position (roadmap ! (goals ! i))) (getAgentPosition sim i)))
          else Some (normalize_v (vsub (position (roadmap ! minVertex)) (getAgentPosition sim i))))"

text \<open>
  The loop over the agents (line 305): the velocities handed to \<open>setAgentPrefVelocity\<close>
  by lines 323 to 341, one per agent. The perturbation added afterwards draws from
  \<open>std::rand\<close> and is not modelled.
\<close>

definition setPreferredVelocities ::
  "RVOSimulator \<Rightarrow> RoadmapVertex list \<Rightarrow> nat list \<Rightarrow> velocity option list" where
  "setPreferredVelocities sim roadmap goals =
     map (prefVelocity sim roadmap goals) [0..<getNumAgents sim]"

section \<open>reachedGoal\<close>

text \<open>
  The loop of lines 359 to 364 returns false at the first agent farther than the tolerance;
  reading \<open>goals[i]\<close> or \<open>roadmap[goals[i]]\<close> out of range has no result.
\<close>

fun reachedGoal_loop ::
  "RVOSimulator \<Rightarrow> RoadmapVertex list \<Rightarrow> nat list \<Rightarrow> nat list \<Rightarrow> bool option" where
  "reachedGoal_loop sim roadmap goals [] = Some True"
| "reachedGoal_loop sim roadmap goals (i # ks) =
     (if i < length goals \<and> goals ! i < length roadmap
      then if absSq (vsub (getAgentPosition sim i) (position (roadmap ! (goals ! i)))) > 400
           then Some False
           else reachedGoal_loop sim roadmap goals ks
      else None)"

definition reachedGoal :: "RVOSimulator \<Rightarrow> RoadmapVertex list \<Rightarrow> nat list \<Rightarrow> bool option" where
  "reachedGoal sim roadmap goals = reachedGoal_loop sim roadmap goals [0..<getNumAgents sim]"

section \<open>Example inputs\<close>

text \<open>
  A vertex as \<open>setupScenario\<close> pushes it: \<open>RoadmapVertex v; v.position = p;\<close>
  leaves \<open>neighbors\<close> and \<open>distToGoal\<close> empty.
\<close>

definition vertex_at :: "Vector2 \<Rightarrow> RoadmapVertex" where
  "vertex_at p = \<lparr>position = p, neighbors = [], distToGoal = []\<rparr>"

text \<open>
  The twenty roadmap vertices of \<open>setupScenario\<close> (lines 131 to 175): the four goals
  first, then the sixteen vertices around the obstacles.
\<close>

definition setupScenario_roadmap :: "RoadmapVertex list" where
  "setupScenario_roadmap =
     map vertex_at
       [(-75, -75), (75, -75), (-75, 75), (75, 75),
        (-42, -42), (-42, -8), (-42, 8), (-42, 42),
        (-8, -42), (-8, -8), (-8, 8), (-8, 42),
        (8, -42), (8, -8), (8, 8), (8, 42),
        (42, -42), (42, -8), (42, 8), (42, 42)]"

text \<open>
  A roadmap is fresh when no vertex has neighbours or distances yet, as every roadmap
  that \<open>setupScenario\<close> hands to \<open>buildRoadmap\<close> is.
\<close>

definition fresh :: "RoadmapVertex list \<Rightarrow> bool" where
  "fresh roadmap = (\<forall>v \<in> set roadmap. neighbors v = [] \<and> distToGoal v = [])"

text \<open>
  Two visibility oracles for examples: an environment without obstacles, and a wall along
  the line \<open>x = 6\<close> that blocks the sight between its two sides. A simulator for
  examples holds agents at given positions, all of radius 2.
\<close>

definition no_obstacles :: "Vector2 \<Rightarrow> Vector2 \<Rightarrow> real \<Rightarrow> bool" where
  "no_obstacles a b r = True"

definition wall_at_6 :: "Vector2 \<Rightarrow> Vector2 \<Rightarrow> real \<Rightarrow> bool" where
  "wall_at_6 a b r = ((fst a < 6) = (fst b < 6))"

definition agents_at :: "Vector2 list \<Rightarrow> (Vector2 \<Rightarrow> Vector2 \<Rightarrow> real \<Rightarrow> bool) \<Rightarrow> RVOSimulator" where
  "agents_at ps vis =
     \<lparr>getNumAgents = length ps, getAgentPosition = (\<lambda>i. ps ! i), getAgentRadius = (\<lambda>i. 2),
      queryVisibility = vis\<rparr>"

text \<open>
  Four vertices on a line, and the roadmap \<open>buildRoadmap\<close> makes of them behind the
  wall: the vertex at \<open>x = 9\<close> sees no other vertex.
\<close>

definition line_roadmap :: "RoadmapVertex list" where
  "line_roadmap = [vertex_at (0, 0), vertex_at (3, 0), vertex_at (5, 0), vertex_at (9, 0)]"

definition line_built :: "RoadmapVertex list" where
  "line_built =
     [\<lparr>position = (0, 0), neighbors = [0, 1, 2],
        distToGoal = [Finite 0, Finite 3, Finite 5, Infinity]\<rparr>,
      \<lparr>position = (3, 0), neighbors = [0, 1, 2],
        distToGoal = [Finite 3, Finite 0, Finite 2, Infinity]\<rparr>,
      \<lparr>position = (5, 0), neighbors = [0, 1, 2],
        distToGoal = [Finite 5, Finite 2, Finite 0, Infinity]\<rparr>,
      \<lparr>position = (9, 0), neighbors = [3],
        distToGoal = [Infinity, Infinity, Infinity, Finite 0]\<rparr>]"

text \<open>
  Four vertices of which the first two (the goals 0 and 1) lie at the same position, and the
  roadmap \<open>buildRoadmap\<close> makes of them without obstacles.
\<close>

definition twin_roadmap :: "RoadmapVertex list" where
  "twin_roadmap = [vertex_at (0, 0), vertex_at (0, 0), vertex_at (3, 0), vertex_at (5, 0)]"

definition twin_built :: "RoadmapVertex list" where
  "twin_built =
     [\<lparr>position = (0, 0), neighbors = [0, 1, 2, 3],
        distToGoal = [Finite 0, Finite 0, Finite 3, Finite 5]\<rparr>,
      \<lparr>position = (0, 0), neighbors = [0, 1, 2, 3],
        distToGoal = [Finite 0, Finite 0, Finite 3, Finite 5]\<rparr>,
      \<lparr>position = (3, 0), neighbors = [0, 1, 2, 3],
        distToGoal = [Finite 3, Finite 3, Finite 0, Finite 2]\<rparr>,
      \<lparr>position = (5, 0), neighbors = [0, 1, 2, 3],
        distToGoal = [Finite 5, Finite 5, Finite 2, Finite 0]\<rparr>]"

text \<open>
  Four vertices on a line where only the two vertices exactly three apart, the goal 0 and
  the vertex 3, do not see each other: the shortest path between them takes a detour over
  vertex 2, found after a longer one over vertex 1.
\<close>

definition three_apart_blocked :: "Vector2 \<Rightarrow> Vector2 \<Rightarrow> real \<Rightarrow> bool" where
  "three_apart_blocked a b r = (\<bar>fst a - fst b\<bar> \<noteq> 3)"

definition detour_roadmap :: "RoadmapVertex list" where
  "detour_roadmap = [vertex_at (0, 0), vertex_at (-1, 0), vertex_at (3 / 2, 0), vertex_at (3, 0)]"

definition detour_built :: "RoadmapVertex list" where
  "detour_built =
     [\<lparr>position = (0, 0), neighbors = [0, 1, 2],
        distToGoal = [Finite 0, Finite 1, Finite (3 / 2), Finite 3]\<rparr>,
      \<lparr>position = (-1, 0), neighbors = [0, 1, 2, 3],
        distToGoal = [Finite 1, Finite 0, Finite (5 / 2), Finite 4]\<rparr>,
      \<lparr>position = (3 / 2, 0), neighbors = [0, 1, 2, 3],
        distToGoal = [Finite (3 / 2), Finite (5 / 2), Finite 0, Finite (3 / 2)]\<rparr>,
      \<lparr>position = (3, 0), neighbors = [1, 2, 3],
        distToGoal = [Finite 3, Finite 4, Finite (3 / 2), Finite 0]\<rparr>]"

section \<open>Shortest paths of the roadmap graph\<close>

text \<open>
  The graph of a roadmap has an edge from \<open>u\<close> to every entry of
  \<open>roadmap[u].neighbors\<close>, of the Euclidean length between the two positions.
  \<open>path_len roadmap g v l\<close>: some path from \<open>g\<close> to \<open>v\<close> has length \<open>l\<close>.
\<close>

definition edge_len :: "RoadmapVertex list \<Rightarrow> nat \<Rightarrow> nat \<Rightarrow> real" where
  "edge_len roadmap u v = abs_v (vsub (position (roadmap ! v)) (position (roadmap ! u)))"

inductive path_len :: "RoadmapVertex list \<Rightarrow> nat \<Rightarrow> nat \<Rightarrow> real \<Rightarrow> bool"
  for roadmap :: "RoadmapVertex list" and g :: nat where
  start: "g < length roadmap \<Longrightarrow> path_len roadmap g g 0"
| step: "path_len roadmap g u l \<Longrightarrow> v \<in> set (neighbors (roadmap ! u)) \<Longrightarrow> v < length roadmap \<Longrightarrow>
         path_len roadmap g v (l + edge_len roadmap u v)"

text \<open>
  \<open>shortest G g rm\<close>: column \<open>g\<close> of the distances of \<open>rm\<close> holds, for every vertex, the
  least length of a path of \<open>G\<close> from \<open>g\<close>, or infinity where there is no path.
\<close>

definition shortest :: "RoadmapVertex list \<Rightarrow> nat \<Rightarrow> RoadmapVertex list \<Rightarrow> bool" where
  "shortest G g rm =
     (\<forall>v<length G.
        case distToGoal (rm ! v) ! g of
          Finite d \<Rightarrow> path_len G g v d \<and> (\<forall>l. path_len G g v l \<longrightarrow> d \<le> l)
        | Infinity \<Rightarrow> (\<forall>l. \<not> path_len G g v l))"

section \<open>Invariants\<close>

text \<open>
  Two roadmaps have the same graph when positions and neighbour lists agree; a run for
  goal \<open>i\<close> changes nothing else than column \<open>i\<close> of the distances.
\<close>

definition same_graph :: "RoadmapVertex list \<Rightarrow> RoadmapVertex list \<Rightarrow> bool" where
  "same_graph G rm =
     (length rm = length G \<and>
      (\<forall>v<length G. position (rm ! v) = position (G ! v) \<and> neighbors (rm ! v) = neighbors (G ! v)))"

definition frame :: "nat \<Rightarrow> RoadmapVertex list \<Rightarrow> RoadmapVertex list \<Rightarrow> bool" where
  "frame i G rm =
     (same_graph G rm \<and>
      (\<forall>v<length G. length (distToGoal (rm ! v)) = length (distToGoal (G ! v)) \<and>
         (\<forall>k. k \<noteq> i \<longrightarrow> distToGoal (rm ! v) ! k = distToGoal (G ! v) ! k)))"

text \<open>
  What a run for goal \<open>i\<close> needs of the roadmap: the goal is a vertex, every vertex
  has a column \<open>i\<close>, and every neighbour is a vertex.
\<close>

definition wf_graph :: "nat \<Rightarrow> RoadmapVertex list \<Rightarrow> bool" where
  "wf_graph i G =
     (i < length G \<and> (\<forall>v<length G. i < length (distToGoal (G ! v))) \<and>
      (\<forall>u<length G. \<forall>v \<in> set (neighbors (G ! u)). v < length G))"

text \<open>
  Reading the state: the distance of a vertex in column \<open>i\<close>, the vertices in the
  queue, the settled vertices (reached and no longer in the queue), and the value
  \<open>roadmap[u].distToGoal[i] + distUV\<close> that \<open>relax\<close> compares.
\<close>

definition dcol :: "nat \<Rightarrow> dijkstra_state \<Rightarrow> nat \<Rightarrow> float" where
  "dcol i s v = distToGoal (s_roadmap s ! v) ! i"

definition queued :: "dijkstra_state \<Rightarrow> nat set" where
  "queued s = snd ` set (s_Q s)"

definition settled :: "nat \<Rightarrow> dijkstra_state \<Rightarrow> nat \<Rightarrow> bool" where
  "settled i s v = (v < length (s_roadmap s) \<and> dcol i s v \<noteq> Infinity \<and> v \<notin> queued s)"

definition newDist :: "nat \<Rightarrow> nat \<Rightarrow> nat \<Rightarrow> dijkstra_state \<Rightarrow> float" where
  "newDist i u v s = fadd (dcol i s u) (Finite (edge_len (s_roadmap s) u v))"

text \<open>
  The queue is sorted, holds every vertex at most once under its current distance, and
  \<open>posInQ\<close> points to exactly these entries.
\<close>

definition queue_ok :: "nat \<Rightarrow> dijkstra_state \<Rightarrow> bool" where
  "queue_ok i s =
     (length (s_posInQ s) = length (s_roadmap s) \<and>
      sorted (map fst (s_Q s)) \<and> distinct (map snd (s_Q s)) \<and>
      (\<forall>e \<in> set (s_Q s). snd e < length (s_roadmap s) \<and> fst e = dcol i s (snd e) \<and> fst e \<noteq> Infinity) \<and>
      (\<forall>v<length (s_roadmap s).
          s_posInQ s ! v = (if v \<in> queued s then Some (dcol i s v, v) else None)))"

text \<open>
  Every finite distance is the length of a path; the edges out of the settled vertices
  (but those of \<open>X\<close>) are relaxed; no settled vertex is farther than a queue entry.
\<close>

definition sound :: "RoadmapVertex list \<Rightarrow> nat \<Rightarrow> dijkstra_state \<Rightarrow> bool" where
  "sound G i s =
     (dcol i s i = Finite 0 \<and> (\<forall>v<length G. \<forall>l. dcol i s v = Finite l \<longrightarrow> path_len G i v l))"

definition closed_except :: "RoadmapVertex list \<Rightarrow> nat \<Rightarrow> dijkstra_state \<Rightarrow> nat set \<Rightarrow> bool" where
  "closed_except G i s X =
     (\<forall>x. settled i s x \<and> x \<notin> X \<longrightarrow>
        (\<forall>v \<in> set (neighbors (G ! x)). dcol i s v \<le> fadd (dcol i s x) (Finite (edge_len G x v))))"

definition below_queue :: "nat \<Rightarrow> dijkstra_state \<Rightarrow> bool" where
  "below_queue i s = (\<forall>x. settled i s x \<longrightarrow> (\<forall>e \<in> set (s_Q s). dcol i s x \<le> fst e))"

text \<open>
  The invariant of the loop \<open>while (!Q.empty())\<close>, and the invariant of the loop over
  the neighbours of the vertex \<open>u\<close> just taken from the queue, \<open>D\<close> being the neighbours
  already handled.
\<close>

definition dijkstra_inv :: "RoadmapVertex list \<Rightarrow> nat \<Rightarrow> dijkstra_state \<Rightarrow> bool" where
  "dijkstra_inv G i s =
     (wf_graph i G \<and> frame i G (s_roadmap s) \<and> queue_ok i s \<and> sound G i s \<and>
      closed_except G i s {} \<and> below_queue i s)"

definition relax_inv :: "RoadmapVertex list \<Rightarrow> nat \<Rightarrow> nat \<Rightarrow> dijkstra_state \<Rightarrow> nat set \<Rightarrow> bool" where
  "relax_inv G i u s D =
     (wf_graph i G \<and> frame i G (s_roadmap s) \<and> queue_ok i s \<and> sound G i s \<and>
      closed_except G i s {u} \<and> below_queue i s \<and> settled i s u \<and>
      (\<forall>x. settled i s x \<longrightarrow> dcol i s x \<le> dcol i s u) \<and>
      (\<forall>v \<in> D. dcol i s v \<le> fadd (dcol i s u) (Finite (edge_len G u v))))"

text \<open>
  The invariant of the selection loop of \<open>setPreferredVelocities\<close> after the vertices
  \<open>P\<close>: the selected vertex is visible, has finite cost, no visible vertex of \<open>P\<close> is
  cheaper and none of lower index is as cheap.
\<close>

definition select_inv ::
  "RVOSimulator \<Rightarrow> RoadmapVertex list \<Rightarrow> nat list \<Rightarrow> nat \<Rightarrow> nat set \<Rightarrow> float \<times> nat option \<Rightarrow> bool" where
  "select_inv sim roadmap goals i P acc =
     (case snd acc of
        None \<Rightarrow> fst acc = Infinity \<and>
          (\<forall>j \<in> P. visible sim roadmap i j \<longrightarrow> cost sim roadmap goals i j = Infinity)
      | Some m \<Rightarrow> m \<in> P \<and> visible sim roadmap i m \<and> fst acc = cost sim roadmap goals i m \<and>
          cost sim roadmap goals i m < Infinity \<and>
          (\<forall>j \<in> P. visible sim roadmap i j \<longrightarrow> cost sim roadmap goals i m \<le> cost sim roadmap goals i j) \<and>
          (\<forall>j \<in> P. j < m \<longrightarrow> visible sim roadmap i j \<longrightarrow>
             cost sim roadmap goals i m < cost sim roadmap goals i j))"

section \<open>Floats and vectors\<close>

lemma float_less_simps [simp]:
  "(Finite a < Finite b) = (a < b)"
  "(Finite a < Infinity) = True"
  "(Infinity < c) = False"
  by (cases c; auto simp: less_float_def)+

lemma float_le_Infinity [simp]: "c \<le> Infinity"
  by (cases c) simp_all

lemma float_not_less_Infinity: "(\<not> c < Infinity) = (c = Infinity)"
  by (cases c) simp_all

lemma float_le_simps [simp]:
  "(Infinity \<le> c) = (c = Infinity)"
  by (cases c) simp_all

lemma fadd_mono_right: "0 \<le> w \<Longrightarrow> a \<le> fadd a (Finite w)"
  by (cases a) simp_all

lemma absSq_nonneg [simp]: "0 \<le> absSq v"
  by (simp add: absSq_def)

lemma abs_v_nonneg [simp]: "0 \<le> abs_v v"
  by (simp add: abs_v_def)

lemma absSq_eq_0_iff: "(absSq v = 0) = (v = (0, 0))"
  by (cases v) (auto simp: absSq_def sum_power2_eq_zero_iff power2_eq_square[symmetric])

lemma abs_v_eq_0_iff: "(abs_v v = 0) = (v = (0, 0))"
  by (simp add: abs_v_def absSq_eq_0_iff)

lemma vsub_eq_0_iff: "(vsub a b = (0, 0)) = (a = b)"
  by (cases a; cases b) (auto simp: vsub_def)

lemma normalize_unit:
  assumes "v \<noteq> (0, 0)"
  shows "\<exists>u. normalize_v v = Velocity u \<and> abs_v u = 1"
proof -
  have nz: "abs_v v \<noteq> 0" using assms by (simp add: abs_v_eq_0_iff)
  have pos: "0 < abs_v v" using nz abs_v_nonneg[of v] by linarith
  have "absSq (fst v / abs_v v, snd v / abs_v v) = absSq v / (abs_v v * abs_v v)"
    by (simp add: absSq_def add_divide_distrib)
  also have "abs_v v * abs_v v = absSq v"
    by (simp add: abs_v_def)
  also have "absSq v / absSq v = 1"
    using nz by (simp add: abs_v_def)
  finally have "abs_v (fst v / abs_v v, snd v / abs_v v) = 1"
    by (simp add: abs_v_def)
  then show ?thesis using nz by (simp add: normalize_v_def)
qed

lemma abs_v_axis [simp]: "abs_v (x, 0) = \<bar>x\<bar>"
  by (simp add: abs_v_def absSq_def)

section \<open>Evaluating the examples\<close>

lemma upt_4: "[0..<4] = [0, 1, 2, 3]"
  by (simp add: upt_rec)

lemmas run_simps =
  buildRoadmap_def buildRoadmap_connect_def agents_at_def vertex_at_def upt_4 resize_def
  dijkstra_def dijkstra_loop.simps relax_def vsub_def Let_def no_obstacles_def wall_at_6_def
  numeral_eq_Suc

lemmas steer_simps =
  prefVelocity_def cost_def visible_def agents_at_def vsub_def no_obstacles_def wall_at_6_def
  upt_4 normalize_v_def absSq_def


lemma line_built_eq: "buildRoadmap (agents_at [(1, 0)] wall_at_6) line_roadmap = Some line_built"
  by (simp add: line_roadmap_def line_built_def run_simps)

lemma detour_built_eq:
  "buildRoadmap (agents_at [(0, 0)] three_apart_blocked) detour_roadmap = Some detour_built"
  by (simp add: detour_roadmap_def detour_built_def three_apart_blocked_def run_simps)

lemma fresh_line_roadmap: "fresh line_roadmap"
  by (simp add: fresh_def line_roadmap_def vertex_at_def)

lemma fresh_detour_roadmap: "fresh detour_roadmap"
  by (simp add: fresh_def detour_roadmap_def vertex_at_def)

lemma fresh_setupScenario_roadmap: "fresh setupScenario_roadmap"
  by (auto simp: fresh_def setupScenario_roadmap_def vertex_at_def)

section \<open>The visibility graph\<close>

lemma nth_update_field:
  "f (xs[i := y] ! k) = (if k = i \<and> i < length xs then f y else f (xs ! k))"
proof (cases "i < length xs")
  case True
  then show ?thesis by (simp add: nth_list_update)
next
  case False
  then have "xs[i := y] = xs" by (simp add: list_update_beyond)
  with False show ?thesis by simp
qed

lemma position_update_neighbors [simp]:
  "position (rm[i := (rm ! i)\<lparr>neighbors := ns\<rparr>] ! k) = position (rm ! k)"
  by (simp add: nth_update_field)

lemma position_update_distToGoal [simp]:
  "position (rm[i := (rm ! i)\<lparr>distToGoal := ds\<rparr>] ! k) = position (rm ! k)"
  by (simp add: nth_update_field)

lemma neighbors_update_distToGoal [simp]:
  "neighbors (rm[i := (rm ! i)\<lparr>distToGoal := ds\<rparr>] ! k) = neighbors (rm ! k)"
  by (simp add: nth_update_field)

lemma distToGoal_update_neighbors [simp]:
  "distToGoal (rm[i := (rm ! i)\<lparr>neighbors := ns\<rparr>] ! k) = distToGoal (rm ! k)"
  by (simp add: nth_update_field)

lemma neighbors_update_neighbors:
  "neighbors (rm[i := (rm ! i)\<lparr>neighbors := ns\<rparr>] ! k) =
     (if k = i \<and> i < length rm then ns else neighbors (rm ! k))"
  by (simp add: nth_update_field)

lemma distToGoal_update_distToGoal:
  "distToGoal (rm[i := (rm ! i)\<lparr>distToGoal := ds\<rparr>] ! k) =
     (if k = i \<and> i < length rm then ds else distToGoal (rm ! k))"
  by (simp add: nth_update_field)

lemma connect_inner_length [simp]:
  "length (connect_inner sim i js roadmap) = length roadmap"
  by (induction js arbitrary: roadmap) auto

lemma connect_inner_position [simp]:
  "position (connect_inner sim i js roadmap ! k) = position (roadmap ! k)"
  by (induction js arbitrary: roadmap) auto

lemma connect_inner_distToGoal [simp]:
  "distToGoal (connect_inner sim i js roadmap ! k) = distToGoal (roadmap ! k)"
  by (induction js arbitrary: roadmap) auto

lemma connect_inner_neighbors:
  "i < length roadmap \<Longrightarrow>
   neighbors (connect_inner sim i js roadmap ! k) =
     (if k = i
      then neighbors (roadmap ! i) @
        filter (\<lambda>j. queryVisibility sim (position (roadmap ! i)) (position (roadmap ! j))
                       (getAgentRadius sim 0)) js
      else neighbors (roadmap ! k))"
  by (induction js arbitrary: roadmap) (auto simp: neighbors_update_neighbors)

lemma connect_outer_length [simp]:
  "length (connect_outer sim ks roadmap) = length roadmap"
  by (induction ks arbitrary: roadmap) (auto simp: Let_def)

lemma connect_outer_position [simp]:
  "position (connect_outer sim ks roadmap ! k) = position (roadmap ! k)"
  by (induction ks arbitrary: roadmap) (auto simp: Let_def)

lemma connect_outer_neighbors:
  "\<forall>i \<in> set ks. i < length roadmap \<Longrightarrow> distinct ks \<Longrightarrow>
   neighbors (connect_outer sim ks roadmap ! k) =
     (if k \<in> set ks
      then neighbors (roadmap ! k) @
        filter (\<lambda>j. queryVisibility sim (position (roadmap ! k)) (position (roadmap ! j))
                       (getAgentRadius sim 0)) [0..<length roadmap]
      else neighbors (roadmap ! k))"
proof (induction ks arbitrary: roadmap)
  case Nil
  then show ?case by simp
next
  case (Cons i ks)
  then show ?case
    by (auto simp: Let_def connect_inner_neighbors)
qed

lemma connect_outer_distToGoal:
  "\<forall>i \<in> set ks. i < length roadmap \<Longrightarrow> distinct ks \<Longrightarrow>
   distToGoal (connect_outer sim ks roadmap ! k) =
     (if k \<in> set ks then resize 4 Infinity (distToGoal (roadmap ! k))
      else distToGoal (roadmap ! k))"
proof (induction ks arbitrary: roadmap)
  case Nil
  then show ?case by simp
next
  case (Cons i ks)
  then show ?case
    by (auto simp: Let_def distToGoal_update_distToGoal)
qed

lemma buildRoadmap_connect_length [simp]:
  "length (buildRoadmap_connect sim roadmap) = length roadmap"
  by (simp add: buildRoadmap_connect_def)

lemma buildRoadmap_connect_position [simp]:
  "position (buildRoadmap_connect sim roadmap ! k) = position (roadmap ! k)"
  by (simp add: buildRoadmap_connect_def)

lemma buildRoadmap_connect_neighbors:
  assumes "k < length roadmap"
  shows "neighbors (buildRoadmap_connect sim roadmap ! k) =
     neighbors (roadmap ! k) @
     filter (\<lambda>j. queryVisibility sim (position (roadmap ! k)) (position (roadmap ! j))
                    (getAgentRadius sim 0)) [0..<length roadmap]"
  using assms by (simp add: buildRoadmap_connect_def connect_outer_neighbors)

lemma buildRoadmap_connect_distToGoal:
  assumes "k < length roadmap"
  shows "distToGoal (buildRoadmap_connect sim roadmap ! k) = resize 4 Infinity (distToGoal (roadmap ! k))"
  using assms by (simp add: buildRoadmap_connect_def connect_outer_distToGoal)

lemma fresh_nth: "fresh roadmap \<Longrightarrow> k < length roadmap \<Longrightarrow>
  neighbors (roadmap ! k) = [] \<and> distToGoal (roadmap ! k) = []"
  by (simp add: fresh_def)

text \<open>
  C3, as the code has it. The claim excludes self-loops; the loops of lines 246 to 252 have
  no test \<open>i != j\<close>. For a fresh roadmap the builder records in \<open>neighbors[i]\<close> exactly
  the indices \<open>j\<close> (in ascending order, \<open>j = i\<close> included) whose position the visibility
  query reports visible from vertex \<open>i\<close>; so \<open>i\<close> itself is in \<open>neighbors[i]\<close> exactly
  when a vertex is visible from its own position.
\<close>

theorem neighbors_are_the_visible_vertices:
  assumes "fresh roadmap" and "i < length roadmap"
  shows "neighbors (buildRoadmap_connect sim roadmap ! i) =
           filter (\<lambda>j. queryVisibility sim (position (roadmap ! i)) (position (roadmap ! j))
                          (getAgentRadius sim 0)) [0..<length roadmap] \<and>
         (i \<in> set (neighbors (buildRoadmap_connect sim roadmap ! i))) =
           queryVisibility sim (position (roadmap ! i)) (position (roadmap ! i)) (getAgentRadius sim 0)"
  using assms by (auto simp: buildRoadmap_connect_neighbors fresh_nth)

text \<open>
  The theorem at the vertex behind the wall: its only neighbour is itself.
\<close>

theorem neighbors_are_the_visible_vertices_witness:
  "fresh line_roadmap \<and> (3::nat) < length line_roadmap \<and>
   neighbors (buildRoadmap_connect (agents_at [(1, 0)] wall_at_6) line_roadmap ! 3) = [3] \<and>
   3 \<in> set (neighbors (buildRoadmap_connect (agents_at [(1, 0)] wall_at_6) line_roadmap ! 3))"
proof -
  have f: "fresh line_roadmap" by (simp add: fresh_def line_roadmap_def vertex_at_def)
  have l: "(3::nat) < length line_roadmap" by (simp add: line_roadmap_def)
  from neighbors_are_the_visible_vertices[OF f l, of "agents_at [(1, 0)] wall_at_6"] f l
  show ?thesis
    by (simp add: line_roadmap_def agents_at_def vertex_at_def wall_at_6_def upt_4)
qed

text \<open>
  C3 as stated fails: without obstacles every point sees itself, and vertex 0 is recorded
  as its own neighbour.
\<close>

theorem self_loop_recorded:
  "0 \<in> set (neighbors (buildRoadmap_connect (agents_at [(0, 0)] no_obstacles) twin_roadmap ! 0))"
  by (simp add: twin_roadmap_def run_simps)

text \<open>
  C4: if the visibility query is symmetric (at the clearance radius the builder uses, the
  radius of agent 0), then in the roadmap built from a fresh one \<open>v\<close> is a neighbour of
  \<open>u\<close> if and only if \<open>u\<close> is a neighbour of \<open>v\<close>.
\<close>

theorem adjacency_symmetric:
  assumes "\<forall>a b. queryVisibility sim a b (getAgentRadius sim 0) = queryVisibility sim b a (getAgentRadius sim 0)"
    and "fresh roadmap" and "u < length roadmap" and "v < length roadmap"
  shows "(v \<in> set (neighbors (buildRoadmap_connect sim roadmap ! u))) =
         (u \<in> set (neighbors (buildRoadmap_connect sim roadmap ! v)))"
proof -
  have "queryVisibility sim (position (roadmap ! u)) (position (roadmap ! v)) (getAgentRadius sim 0) =
        queryVisibility sim (position (roadmap ! v)) (position (roadmap ! u)) (getAgentRadius sim 0)"
    using assms(1) by blast
  with assms(2-4) show ?thesis
    by (simp add: buildRoadmap_connect_neighbors fresh_nth)
qed

text \<open>
  The theorem behind the wall, for the vertices 0 and 2, which see each other.
\<close>

theorem adjacency_symmetric_witness:
  "fresh line_roadmap \<and> (0::nat) < length line_roadmap \<and> (2::nat) < length line_roadmap \<and>
   (2 \<in> set (neighbors (buildRoadmap_connect (agents_at [(1, 0)] wall_at_6) line_roadmap ! 0))) =
   (0 \<in> set (neighbors (buildRoadmap_connect (agents_at [(1, 0)] wall_at_6) line_roadmap ! 2))) \<and>
   2 \<in> set (neighbors (buildRoadmap_connect (agents_at [(1, 0)] wall_at_6) line_roadmap ! 0))"
proof -
  have f: "fresh line_roadmap" by (simp add: fresh_def line_roadmap_def vertex_at_def)
  have l: "(0::nat) < length line_roadmap" "(2::nat) < length line_roadmap"
    by (simp_all add: line_roadmap_def)
  have s: "\<forall>a b. queryVisibility (agents_at [(1, 0)] wall_at_6) a b (getAgentRadius (agents_at [(1, 0)] wall_at_6) 0) =
      queryVisibility (agents_at [(1, 0)] wall_at_6) b a (getAgentRadius (agents_at [(1, 0)] wall_at_6) 0)"
    by (auto simp: agents_at_def wall_at_6_def)
  have e: "2 \<in> set (neighbors (buildRoadmap_connect (agents_at [(1, 0)] wall_at_6) line_roadmap ! 0))"
    by (simp add: line_roadmap_def run_simps)
  from adjacency_symmetric[OF s f l] f l e show ?thesis by simp
qed

section \<open>Dijkstra's algorithm\<close>

subsection \<open>The queue\<close>

lemma set_Q_insert [simp]: "set (Q_insert e q) = insert e (set q)"
  by (induction q) auto

lemma sorted_Q_insert:
  "sorted (map fst q) \<Longrightarrow> sorted (map fst (Q_insert e q))"
  by (induction q) (auto simp: not_less dest: order.strict_implies_order)

lemma distinct_Q_insert:
  "distinct (map snd q) \<Longrightarrow> snd e \<notin> snd ` set q \<Longrightarrow> distinct (map snd (Q_insert e q))"
  by (induction q) auto

lemma in_set_remove1D: "x \<in> set (remove1 e q) \<Longrightarrow> x \<in> set q"
  using set_remove1_subset[of e q] by blast

lemma sorted_remove1_fst:
  "sorted (map fst q) \<Longrightarrow> sorted (map fst (remove1 e q))"
  by (induction q) (auto dest!: in_set_remove1D simp: image_iff)

lemma distinct_remove1_snd:
  "distinct (map snd q) \<Longrightarrow> distinct (map snd (remove1 e q))"
  by (induction q) (auto dest!: in_set_remove1D simp: image_iff)

lemma set_remove1_snd:
  "distinct (map snd q) \<Longrightarrow> e \<in> set q \<Longrightarrow> set (remove1 e q) = {x \<in> set q. snd x \<noteq> snd e}"
proof (induction q)
  case Nil
  then show ?case by simp
next
  case (Cons p q)
  show ?case
  proof (cases "e = p")
    case True
    with Cons.prems show ?thesis by (auto simp: image_iff)
  next
    case False
    with Cons.prems have "e \<in> set q" "snd p \<noteq> snd e"
      by (auto simp: image_iff)
    with Cons False show ?thesis by auto
  qed
qed

subsection \<open>Paths\<close>

lemma edge_len_nonneg [simp]: "0 \<le> edge_len roadmap u v"
  by (simp add: edge_len_def)

lemma path_len_nonneg: "path_len roadmap g v l \<Longrightarrow> 0 \<le> l"
  by (induction rule: path_len.induct) (simp_all add: add_nonneg_nonneg)

lemma path_len_in_range: "path_len roadmap g v l \<Longrightarrow> v < length roadmap"
  by (induction rule: path_len.induct) simp_all

lemma same_graph_refl [simp]: "same_graph G G"
  by (simp add: same_graph_def)

lemma same_graph_trans: "same_graph G rm \<Longrightarrow> same_graph rm rm' \<Longrightarrow> same_graph G rm'"
  by (simp add: same_graph_def)

lemma same_graph_sym: "same_graph G rm \<Longrightarrow> same_graph rm G"
  by (simp add: same_graph_def)

lemma path_len_same_graph_imp:
  assumes "path_len G g v l" and "same_graph G rm"
  shows "path_len rm g v l"
  using assms
proof (induction rule: path_len.induct)
  case start
  then show ?case by (simp add: same_graph_def path_len.start)
next
  case (step u l v)
  from step.hyps(1) have u: "u < length G" by (rule path_len_in_range)
  have "edge_len rm u v = edge_len G u v"
    using step.prems step.hyps(3) u by (simp add: edge_len_def same_graph_def)
  moreover have "path_len rm g v (l + edge_len rm u v)"
    using step u by (intro path_len.step) (auto simp: same_graph_def)
  ultimately show ?case by simp
qed

lemma path_len_same_graph:
  "same_graph G rm \<Longrightarrow> path_len rm g v l = path_len G g v l"
  using path_len_same_graph_imp same_graph_sym by blast

subsection \<open>One relaxation\<close>

lemma relax_unchanged:
  "\<not> newDist i u v s < dcol i s v \<Longrightarrow> relax i u v s = s"
  by (simp add: relax_def newDist_def dcol_def edge_len_def Let_def)

lemma relax_changed:
  "newDist i u v s < dcol i s v \<Longrightarrow>
   relax i u v s =
     s\<lparr>s_roadmap := (s_roadmap s)[v := (s_roadmap s ! v)
          \<lparr>distToGoal := (distToGoal (s_roadmap s ! v))[i := newDist i u v s]\<rparr>],
       s_Q := Q_insert (newDist i u v s, v)
          (case s_posInQ s ! v of None \<Rightarrow> s_Q s | Some e \<Rightarrow> remove1 e (s_Q s)),
       s_posInQ := (s_posInQ s)[v := Some (newDist i u v s, v)]\<rparr>"
  by (simp add: relax_def newDist_def dcol_def edge_len_def Let_def)

lemma relax_length [simp]: "length (s_roadmap (relax i u v s)) = length (s_roadmap s)"
  by (cases "newDist i u v s < dcol i s v") (simp_all add: relax_unchanged relax_changed)

lemma relax_posInQ_length [simp]: "length (s_posInQ (relax i u v s)) = length (s_posInQ s)"
  by (cases "newDist i u v s < dcol i s v") (simp_all add: relax_unchanged relax_changed)

lemma relax_position [simp]: "position (s_roadmap (relax i u v s) ! x) = position (s_roadmap s ! x)"
  by (cases "newDist i u v s < dcol i s v") (simp_all add: relax_unchanged relax_changed)

lemma relax_neighbors [simp]: "neighbors (s_roadmap (relax i u v s) ! x) = neighbors (s_roadmap s ! x)"
  by (cases "newDist i u v s < dcol i s v") (simp_all add: relax_unchanged relax_changed)

lemma relax_distToGoal_length [simp]:
  "length (distToGoal (s_roadmap (relax i u v s) ! x)) = length (distToGoal (s_roadmap s ! x))"
  by (cases "newDist i u v s < dcol i s v")
     (simp_all add: relax_unchanged relax_changed distToGoal_update_distToGoal)

lemma relax_other_column:
  "k \<noteq> i \<Longrightarrow> distToGoal (s_roadmap (relax i u v s) ! x) ! k = distToGoal (s_roadmap s ! x) ! k"
  by (cases "newDist i u v s < dcol i s v")
     (simp_all add: relax_unchanged relax_changed distToGoal_update_distToGoal)

lemma relax_dcol:
  assumes "v < length (s_roadmap s)" and "i < length (distToGoal (s_roadmap s ! v))"
  shows "dcol i (relax i u v s) x =
           (if x = v \<and> newDist i u v s < dcol i s v then newDist i u v s else dcol i s x)"
  using assms
  by (cases "newDist i u v s < dcol i s v")
     (simp_all add: relax_unchanged relax_changed dcol_def distToGoal_update_distToGoal)

lemma relax_same_graph: "same_graph G (s_roadmap s) \<Longrightarrow> same_graph G (s_roadmap (relax i u v s))"
  by (simp add: same_graph_def)

lemma relax_frame: "frame i G (s_roadmap s) \<Longrightarrow> frame i G (s_roadmap (relax i u v s))"
  by (simp add: frame_def relax_same_graph relax_other_column)

lemma frame_edge_len:
  assumes "frame i G rm" and "u < length G" and "v < length G"
  shows "edge_len rm u v = edge_len G u v"
  using assms by (simp add: frame_def same_graph_def edge_len_def)

lemma frame_length: "frame i G rm \<Longrightarrow> length rm = length G"
  by (simp add: frame_def same_graph_def)

lemma frame_neighbors: "frame i G rm \<Longrightarrow> u < length G \<Longrightarrow> neighbors (rm ! u) = neighbors (G ! u)"
  by (simp add: frame_def same_graph_def)

lemma frame_column_length:
  "frame i G rm \<Longrightarrow> wf_graph i G \<Longrightarrow> v < length G \<Longrightarrow> i < length (distToGoal (rm ! v))"
  by (simp add: frame_def wf_graph_def)

text \<open>
  The entry of a vertex is removed from the queue before its new entry is inserted.
\<close>

lemma erase_entry:
  assumes "queue_ok i s" and "v < length (s_roadmap s)"
  shows "set (case s_posInQ s ! v of None \<Rightarrow> s_Q s | Some e \<Rightarrow> remove1 e (s_Q s)) =
           {e \<in> set (s_Q s). snd e \<noteq> v}"
    and "sorted (map fst (case s_posInQ s ! v of None \<Rightarrow> s_Q s | Some e \<Rightarrow> remove1 e (s_Q s)))"
    and "distinct (map snd (case s_posInQ s ! v of None \<Rightarrow> s_Q s | Some e \<Rightarrow> remove1 e (s_Q s)))"
proof -
  from assms have pos: "s_posInQ s ! v = (if v \<in> queued s then Some (dcol i s v, v) else None)"
    and srt: "sorted (map fst (s_Q s))" and dst: "distinct (map snd (s_Q s))"
    and ent: "\<forall>e \<in> set (s_Q s). fst e = dcol i s (snd e)"
    by (simp_all add: queue_ok_def)
  show "set (case s_posInQ s ! v of None \<Rightarrow> s_Q s | Some e \<Rightarrow> remove1 e (s_Q s)) =
           {e \<in> set (s_Q s). snd e \<noteq> v}"
  proof (cases "v \<in> queued s")
    case False
    with pos show ?thesis by (auto simp: queued_def)
  next
    case True
    then obtain e where e: "e \<in> set (s_Q s)" "snd e = v" by (auto simp: queued_def)
    with ent have "e = (dcol i s v, v)" by (cases e) auto
    with e True pos set_remove1_snd[OF dst e(1)] show ?thesis by simp
  qed
  show "sorted (map fst (case s_posInQ s ! v of None \<Rightarrow> s_Q s | Some e \<Rightarrow> remove1 e (s_Q s)))"
    using srt by (simp add: sorted_remove1_fst split: option.split)
  show "distinct (map snd (case s_posInQ s ! v of None \<Rightarrow> s_Q s | Some e \<Rightarrow> remove1 e (s_Q s)))"
    using dst by (simp add: distinct_remove1_snd split: option.split)
qed

text \<open>
  A relaxation keeps the invariant of the inner loop, and settles or unsettles no vertex:
  it changes the distance of a vertex only if that vertex is not settled.
\<close>

lemma relax_step:
  assumes inv: "relax_inv G i u s D" and v: "v \<in> set (neighbors (G ! u))"
  shows "relax_inv G i u (relax i u v s) (insert v D) \<and>
         (\<forall>x. settled i (relax i u v s) x = settled i s x)"
proof -
  from inv have wf: "wf_graph i G" and fr: "frame i G (s_roadmap s)" and qok: "queue_ok i s"
    and snd: "sound G i s" and cl: "closed_except G i s {u}" and bq: "below_queue i s"
    and su: "settled i s u" and top: "\<forall>x. settled i s x \<longrightarrow> dcol i s x \<le> dcol i s u"
    and dn: "\<forall>v \<in> D. dcol i s v \<le> fadd (dcol i s u) (Finite (edge_len G u v))"
    by (simp_all add: relax_inv_def)
  have len: "length (s_roadmap s) = length G" using fr by (rule frame_length)
  have u: "u < length G" using su len by (simp add: settled_def)
  have vl: "v < length G" using wf u v by (simp add: wf_graph_def)
  have col: "i < length (distToGoal (s_roadmap s ! v))"
    using fr wf vl by (rule frame_column_length)
  have nd: "newDist i u v s = fadd (dcol i s u) (Finite (edge_len G u v))"
    using frame_edge_len[OF fr u vl] by (simp add: newDist_def)
  obtain a where du: "dcol i s u = Finite a"
    using su by (cases "dcol i s u") (simp_all add: settled_def)
  have pa: "path_len G i u a" using snd u du by (simp add: sound_def)
  have a0: "0 \<le> a" using pa by (rule path_len_nonneg)
  have ndF: "newDist i u v s = Finite (a + edge_len G u v)" using nd du by simp
  have dc: "\<And>x. dcol i (relax i u v s) x =
      (if x = v \<and> newDist i u v s < dcol i s v then newDist i u v s else dcol i s x)"
    using relax_dcol[of v s i u] vl col len by simp
  show ?thesis
  proof (cases "newDist i u v s < dcol i s v")
    case False
    then have same: "relax i u v s = s" by (rule relax_unchanged)
    from False have "dcol i s v \<le> fadd (dcol i s u) (Finite (edge_len G u v))"
      using nd by (simp add: not_less)
    with inv same show ?thesis by (simp add: relax_inv_def)
  next
    case True
    let ?s = "relax i u v s"
    let ?q0 = "case s_posInQ s ! v of None \<Rightarrow> s_Q s | Some e \<Rightarrow> remove1 e (s_Q s)"
    have vlen: "v < length (s_roadmap s)" using vl len by simp
    have Q': "s_Q ?s = Q_insert (newDist i u v s, v) ?q0"
      and P': "s_posInQ ?s = (s_posInQ s)[v := Some (newDist i u v s, v)]"
      using relax_changed[OF True] by simp_all
    have q0: "set ?q0 = {e \<in> set (s_Q s). snd e \<noteq> v}"
      and q0s: "sorted (map fst ?q0)" and q0d: "distinct (map snd ?q0)"
      using erase_entry[OF qok vlen] by blast+
    have Qs: "set (s_Q ?s) = insert (newDist i u v s, v) {e \<in> set (s_Q s). snd e \<noteq> v}"
      using Q' q0 by simp
    have qd: "queued ?s = insert v (queued s)"
      unfolding queued_def Qs by force
    have dc': "\<And>x. dcol i ?s x = (if x = v then newDist i u v s else dcol i s x)"
      using dc True by simp
    have nsv: "\<not> settled i s v"
    proof
      assume "settled i s v"
      with top have "dcol i s v \<le> dcol i s u" by blast
      also have "\<dots> \<le> newDist i u v s" using nd by (simp add: fadd_mono_right)
      finally show False using True by simp
    qed
    have st: "\<And>x. settled i ?s x = settled i s x"
    proof -
      fix x
      show "settled i ?s x = settled i s x"
      proof (cases "x = v")
        case True
        with nsv qd show ?thesis by (simp add: settled_def)
      next
        case False
        with qd dc' show ?thesis by (simp add: settled_def)
      qed
    qed
    have uv: "u \<noteq> v" using su nsv by auto
    have le_old: "\<And>x. dcol i ?s x \<le> dcol i s x"
      using dc' True by (simp add: order.strict_implies_order)
    have keep: "\<And>x. settled i s x \<Longrightarrow> dcol i ?s x = dcol i s x"
      using dc' nsv by auto
    have fr': "frame i G (s_roadmap ?s)" using fr by (rule relax_frame)
    have qok': "queue_ok i ?s"
      unfolding queue_ok_def
    proof (intro conjI)
      show "length (s_posInQ ?s) = length (s_roadmap ?s)"
        using qok by (simp add: queue_ok_def)
      show "sorted (map fst (s_Q ?s))"
        unfolding Q' using q0s by (rule sorted_Q_insert)
      show "distinct (map snd (s_Q ?s))"
        unfolding Q' using q0d q0 by (intro distinct_Q_insert) auto
      show "\<forall>e \<in> set (s_Q ?s). snd e < length (s_roadmap ?s) \<and> fst e = dcol i ?s (snd e) \<and> fst e \<noteq> Infinity"
        using qok vlen ndF by (auto simp: Qs dc' queue_ok_def)
      show "\<forall>x<length (s_roadmap ?s).
          s_posInQ ?s ! x = (if x \<in> queued ?s then Some (dcol i ?s x, x) else None)"
        using qok vlen by (auto simp: P' qd dc' queue_ok_def nth_list_update)
    qed
    have snd': "sound G i ?s"
      unfolding sound_def
    proof (intro conjI allI impI)
      have "v \<noteq> i"
      proof
        assume "v = i"
        with True ndF snd have "a + edge_len G u v < 0" by (simp add: sound_def)
        with a0 edge_len_nonneg[of G u v] show False by linarith
      qed
      then show "dcol i ?s i = Finite 0" using snd dc' by (simp add: sound_def)
    next
      fix x l
      assume x: "x < length G" and l: "dcol i ?s x = Finite l"
      show "path_len G i x l"
      proof (cases "x = v")
        case True
        with l dc' ndF have "l = a + edge_len G u v" by simp
        with path_len.step[OF pa v vl] True show ?thesis by simp
      next
        case False
        with l dc' snd x show ?thesis by (simp add: sound_def)
      qed
    qed
    have cl': "closed_except G i ?s {u}"
      unfolding closed_except_def
    proof (intro allI impI ballI)
      fix x y
      assume x: "settled i ?s x \<and> x \<notin> {u}" and y: "y \<in> set (neighbors (G ! x))"
      then have sx: "settled i s x" using st by simp
      have "dcol i ?s y \<le> dcol i s y" by (rule le_old)
      also have "\<dots> \<le> fadd (dcol i s x) (Finite (edge_len G x y))"
        using cl sx x y by (simp add: closed_except_def)
      finally show "dcol i ?s y \<le> fadd (dcol i ?s x) (Finite (edge_len G x y))"
        using keep[OF sx] by simp
    qed
    have top': "\<forall>x. settled i ?s x \<longrightarrow> dcol i ?s x \<le> dcol i ?s u"
      using top st keep su by simp
    have bq': "below_queue i ?s"
      unfolding below_queue_def
    proof (intro allI impI ballI)
      fix x e
      assume x: "settled i ?s x" and e: "e \<in> set (s_Q ?s)"
      then have sx: "settled i s x" using st by simp
      show "dcol i ?s x \<le> fst e"
      proof (cases "e = (newDist i u v s, v)")
        case True
        have "dcol i s x \<le> dcol i s u" using top sx by blast
        also have "\<dots> \<le> newDist i u v s" using nd by (simp add: fadd_mono_right)
        finally show ?thesis using True keep[OF sx] by simp
      next
        case False
        with e Qs have "e \<in> set (s_Q s)" by auto
        with bq sx keep[OF sx] show ?thesis by (simp add: below_queue_def)
      qed
    qed
    have dn': "\<forall>y \<in> insert v D. dcol i ?s y \<le> fadd (dcol i ?s u) (Finite (edge_len G u y))"
    proof
      fix y
      assume y: "y \<in> insert v D"
      show "dcol i ?s y \<le> fadd (dcol i ?s u) (Finite (edge_len G u y))"
      proof (cases "y = v")
        case True
        then show ?thesis using dc' nd uv by simp
      next
        case False
        with y have "y \<in> D" by simp
        with dn have "dcol i s y \<le> fadd (dcol i s u) (Finite (edge_len G u y))" by blast
        with le_old[of y] keep[OF su] show ?thesis by simp
      qed
    qed
    from wf fr' qok' snd' cl' bq' su st top' dn' show ?thesis
      by (simp add: relax_inv_def)
  qed
qed

subsection \<open>The loops\<close>

lemma relax_loop_inv:
  assumes "relax_inv G i u s D" and "set vs \<subseteq> set (neighbors (G ! u))"
  shows "\<exists>s'. relax_loop i u vs s = Some s' \<and> relax_inv G i u s' (D \<union> set vs) \<and>
           (\<forall>x. settled i s' x = settled i s x)"
  using assms
proof (induction vs arbitrary: s D)
  case Nil
  then show ?case by simp
next
  case (Cons v vs)
  from Cons.prems(1) have wf: "wf_graph i G" and fr: "frame i G (s_roadmap s)"
    and qok: "queue_ok i s" and su: "settled i s u"
    by (simp_all add: relax_inv_def)
  have len: "length (s_roadmap s) = length G" using fr by (rule frame_length)
  have u: "u < length G" using su len by (simp add: settled_def)
  have v: "v \<in> set (neighbors (G ! u))" using Cons.prems(2) by simp
  have vl: "v < length G" using wf u v by (simp add: wf_graph_def)
  have guard: "v < length (s_roadmap s) \<and> v < length (s_posInQ s) \<and>
      i < length (distToGoal (s_roadmap s ! v)) \<and> i < length (distToGoal (s_roadmap s ! u))"
    using vl u len qok frame_column_length[OF fr wf] by (simp add: queue_ok_def)
  from relax_step[OF Cons.prems(1) v]
  have step: "relax_inv G i u (relax i u v s) (insert v D)"
    and st: "\<forall>x. settled i (relax i u v s) x = settled i s x" by simp_all
  from Cons.IH[OF step] Cons.prems(2)
  obtain s' where "relax_loop i u vs (relax i u v s) = Some s'"
    and "relax_inv G i u s' (insert v D \<union> set vs)"
    and "\<forall>x. settled i s' x = settled i (relax i u v s) x" by auto
  with guard st show ?case by simp
qed

lemma pop_head:
  assumes inv: "dijkstra_inv G i s" and Q: "s_Q s = e # rest"
  shows "relax_inv G i (snd e) (s\<lparr>s_Q := rest, s_posInQ := (s_posInQ s)[snd e := None]\<rparr>) {}"
    and "\<forall>x. settled i (s\<lparr>s_Q := rest, s_posInQ := (s_posInQ s)[snd e := None]\<rparr>) x =
           (settled i s x \<or> x = snd e)"
    and "\<not> settled i s (snd e)" and "snd e < length G"
proof -
  let ?u = "snd e"
  let ?s = "s\<lparr>s_Q := rest, s_posInQ := (s_posInQ s)[snd e := None]\<rparr>"
  from inv have wf: "wf_graph i G" and fr: "frame i G (s_roadmap s)" and qok: "queue_ok i s"
    and snd: "sound G i s" and cl: "closed_except G i s {}" and bq: "below_queue i s"
    by (simp_all add: dijkstra_inv_def)
  have len: "length (s_roadmap s) = length G" using fr by (rule frame_length)
  have srt: "sorted (map fst (e # rest))" and dst: "distinct (map snd (e # rest))"
    and ent: "\<forall>x \<in> set (e # rest). snd x < length (s_roadmap s) \<and> fst x = dcol i s (snd x) \<and> fst x \<noteq> Infinity"
    and pos: "\<forall>v<length (s_roadmap s). s_posInQ s ! v = (if v \<in> queued s then Some (dcol i s v, v) else None)"
    and plen: "length (s_posInQ s) = length (s_roadmap s)"
    using qok unfolding queue_ok_def Q by blast+
  have dc: "\<And>x. dcol i ?s x = dcol i s x" by (simp add: dcol_def)
  have qs: "queued s = insert ?u (queued ?s)" using Q by (simp add: queued_def)
  have unq: "?u \<notin> queued ?s" using dst by (simp add: queued_def)
  show ul: "?u < length G" using ent len by simp
  have due: "dcol i s ?u = fst e" and fin: "fst e \<noteq> Infinity" using ent by auto
  show nst: "\<not> settled i s ?u" using qs by (simp add: settled_def)
  show st: "\<forall>x. settled i ?s x = (settled i s x \<or> x = ?u)"
    using qs unq ul len due fin by (auto simp: settled_def dc)
  have qok': "queue_ok i ?s"
    unfolding queue_ok_def
  proof (intro conjI)
    show "length (s_posInQ ?s) = length (s_roadmap ?s)" using plen by simp
    show "sorted (map fst (s_Q ?s))" using srt by simp
    show "distinct (map snd (s_Q ?s))" using dst by simp
    show "\<forall>x \<in> set (s_Q ?s). snd x < length (s_roadmap ?s) \<and> fst x = dcol i ?s (snd x) \<and> fst x \<noteq> Infinity"
      using ent by (auto simp: dc)
    show "\<forall>v<length (s_roadmap ?s). s_posInQ ?s ! v = (if v \<in> queued ?s then Some (dcol i ?s v, v) else None)"
    proof (intro allI impI)
      fix x
      assume "x < length (s_roadmap ?s)"
      then have xl: "x < length (s_roadmap s)" by simp
      show "s_posInQ ?s ! x = (if x \<in> queued ?s then Some (dcol i ?s x, x) else None)"
      proof (cases "x = ?u")
        case True
        with unq xl plen show ?thesis by simp
      next
        case False
        with pos xl qs
        have "s_posInQ s ! x = (if x \<in> queued ?s then Some (dcol i s x, x) else None)"
          by simp
        with False show ?thesis by (simp add: dc)
      qed
    qed
  qed
  have snd': "sound G i ?s" using snd by (simp add: sound_def dc)
  have cl': "closed_except G i ?s {?u}"
    using cl st by (auto simp: closed_except_def dc)
  have top: "\<forall>x. settled i ?s x \<longrightarrow> dcol i ?s x \<le> dcol i ?s ?u"
  proof (intro allI impI)
    fix x
    assume "settled i ?s x"
    with st have "settled i s x \<or> x = ?u" by simp
    then show "dcol i ?s x \<le> dcol i ?s ?u"
    proof
      assume "settled i s x"
      with bq Q have "dcol i s x \<le> fst e" by (simp add: below_queue_def)
      with due show ?thesis by (simp add: dc)
    next
      assume "x = ?u"
      then show ?thesis by simp
    qed
  qed
  have bq': "below_queue i ?s"
    unfolding below_queue_def
  proof (intro allI impI ballI)
    fix x y
    assume x: "settled i ?s x" and y: "y \<in> set (s_Q ?s)"
    from y have yr: "y \<in> set rest" by simp
    from srt yr have "fst e \<le> fst y" by auto
    with top x due show "dcol i ?s x \<le> fst y" by (auto simp: dc)
  qed
  have su: "settled i ?s ?u" using st by simp
  from wf fr qok' snd' cl' bq' su top show "relax_inv G i ?u ?s {}"
    by (simp add: relax_inv_def)
qed

lemma relax_inv_finish:
  assumes "relax_inv G i u s (set (neighbors (G ! u)))"
  shows "dijkstra_inv G i s"
  using assms by (auto simp: relax_inv_def dijkstra_inv_def closed_except_def)

text \<open>
  The loop ends, with the invariant and an empty queue: every iteration settles the vertex
  it takes from the queue, and no settled vertex returns to the queue.
\<close>

lemma dijkstra_loop_total:
  assumes "dijkstra_inv G i s"
  shows "\<exists>s'. dijkstra_loop i s = Some s' \<and> dijkstra_inv G i s' \<and> s_Q s' = []"
  using assms
proof (induction "card {x. x < length G \<and> \<not> settled i s x}" arbitrary: s rule: less_induct)
  case less
  show ?case
  proof (cases "s_Q s")
    case Nil
    with less.prems show ?thesis by (subst dijkstra_loop.simps) simp
  next
    case (Cons e rest)
    let ?u = "snd e"
    let ?s1 = "s\<lparr>s_Q := rest, s_posInQ := (s_posInQ s)[snd e := None]\<rparr>"
    from less.prems have wf: "wf_graph i G" and fr: "frame i G (s_roadmap s)" and qok: "queue_ok i s"
      by (simp_all add: dijkstra_inv_def)
    have len: "length (s_roadmap s) = length G" using fr by (rule frame_length)
    note pop = pop_head[OF less.prems Cons]
    have nb: "neighbors (s_roadmap s ! ?u) = neighbors (G ! ?u)"
      using frame_neighbors[OF fr pop(4)] .
    from relax_loop_inv[OF pop(1), of "neighbors (G ! ?u)"]
    obtain s2 where run: "relax_loop i ?u (neighbors (G ! ?u)) ?s1 = Some s2"
      and inv2: "relax_inv G i ?u s2 (set (neighbors (G ! ?u)))"
      and st2: "\<forall>x. settled i s2 x = settled i ?s1 x" by auto
    have dinv2: "dijkstra_inv G i s2" using inv2 by (rule relax_inv_finish)
    have sub: "{x. x < length G \<and> \<not> settled i s2 x} \<subset> {x. x < length G \<and> \<not> settled i s x}"
      using pop(2,3,4) st2 by auto
    have "card {x. x < length G \<and> \<not> settled i s2 x} < card {x. x < length G \<and> \<not> settled i s x}"
      by (rule psubset_card_mono[OF _ sub]) simp
    from less.hyps[OF this dinv2]
    obtain s' where "dijkstra_loop i s2 = Some s'" "dijkstra_inv G i s'" "s_Q s' = []" by blast
    moreover have "dijkstra_loop i s = dijkstra_loop i s2"
      using Cons run nb pop(4) len qok
      by (subst dijkstra_loop.simps) (simp add: queue_ok_def)
    ultimately show ?thesis by simp
  qed
qed

lemma lower_bound:
  assumes inv: "dijkstra_inv G i s" and empty: "s_Q s = []" and path: "path_len G i v l"
  shows "dcol i s v \<le> Finite l"
  using path
proof (induction rule: path_len.induct)
  case start
  from inv show ?case by (simp add: dijkstra_inv_def sound_def)
next
  case (step u l v)
  from inv have fr: "frame i G (s_roadmap s)" and cl: "closed_except G i s {}"
    by (simp_all add: dijkstra_inv_def)
  from step.hyps(1) have u: "u < length G" by (rule path_len_in_range)
  from step.IH obtain a where a: "dcol i s u = Finite a" "a \<le> l"
    by (cases "dcol i s u") simp_all
  have "settled i s u"
    using a u empty frame_length[OF fr] by (simp add: settled_def queued_def)
  with cl step.hyps(2) have "dcol i s v \<le> fadd (dcol i s u) (Finite (edge_len G u v))"
    by (simp add: closed_except_def)
  also have "\<dots> \<le> Finite (l + edge_len G u v)" using a by simp
  finally show ?case .
qed

lemma dijkstra_inv_final:
  assumes inv: "dijkstra_inv G i s" and empty: "s_Q s = []"
  shows "shortest G i (s_roadmap s)"
  unfolding shortest_def
proof (intro allI impI)
  fix v
  assume v: "v < length G"
  from inv have snd: "sound G i s" by (simp add: dijkstra_inv_def)
  show "case distToGoal (s_roadmap s ! v) ! i of
          Finite d \<Rightarrow> path_len G i v d \<and> (\<forall>l. path_len G i v l \<longrightarrow> d \<le> l)
        | Infinity \<Rightarrow> (\<forall>l. \<not> path_len G i v l)"
  proof (cases "dcol i s v")
    case (Finite d)
    with snd v have "path_len G i v d" by (simp add: sound_def)
    moreover have "\<forall>l. path_len G i v l \<longrightarrow> d \<le> l"
      using lower_bound[OF inv empty, of v] Finite by auto
    ultimately show ?thesis using Finite by (simp add: dcol_def)
  next
    case Infinity
    have "\<forall>l. \<not> path_len G i v l"
      using lower_bound[OF inv empty, of v] Infinity by auto
    with Infinity show ?thesis by (simp add: dcol_def)
  qed
qed

lemma dijkstra_inv_init:
  assumes wf: "wf_graph i G" and inf: "\<forall>v<length G. distToGoal (G ! v) ! i = Infinity"
  shows "dijkstra_inv G i
           \<lparr>s_roadmap = G[i := (G ! i)\<lparr>distToGoal := (distToGoal (G ! i))[i := Finite 0]\<rparr>],
            s_Q = Q_insert (Finite 0, i) [],
            s_posInQ = (replicate (length G) None)[i := Some (Finite 0, i)]\<rparr>"
    (is "dijkstra_inv G i ?s")
proof -
  from wf have i: "i < length G" and col: "i < length (distToGoal (G ! i))"
    by (simp_all add: wf_graph_def)
  have dc: "\<And>x. dcol i ?s x = (if x = i then Finite 0 else dcol i \<lparr>s_roadmap = G, s_Q = [], s_posInQ = []\<rparr> x)"
    using i col by (simp add: dcol_def distToGoal_update_distToGoal)
  have dinf: "\<And>x. x < length G \<Longrightarrow> x \<noteq> i \<Longrightarrow> dcol i ?s x = Infinity"
    using dc inf by (simp add: dcol_def)
  have q: "queued ?s = {i}" by (simp add: queued_def)
  have nost: "\<And>x. \<not> settled i ?s x"
  proof
    fix x
    assume "settled i ?s x"
    then have "x < length G" "dcol i ?s x \<noteq> Infinity" "x \<noteq> i"
      using q by (auto simp: settled_def)
    with dinf show False by simp
  qed
  have fr: "frame i G (s_roadmap ?s)"
    by (simp add: frame_def same_graph_def distToGoal_update_distToGoal)
  have qok: "queue_ok i ?s"
    unfolding queue_ok_def
  proof (intro conjI)
    show "length (s_posInQ ?s) = length (s_roadmap ?s)" by simp
    show "sorted (map fst (s_Q ?s))" by simp
    show "distinct (map snd (s_Q ?s))" by simp
    show "\<forall>e \<in> set (s_Q ?s). snd e < length (s_roadmap ?s) \<and> fst e = dcol i ?s (snd e) \<and> fst e \<noteq> Infinity"
      using i dc[of i] by simp
    show "\<forall>v<length (s_roadmap ?s). s_posInQ ?s ! v = (if v \<in> queued ?s then Some (dcol i ?s v, v) else None)"
      unfolding q using i dc[of i] by (simp add: nth_list_update)
  qed
  have snd: "sound G i ?s"
    unfolding sound_def
  proof (intro conjI allI impI)
    show "dcol i ?s i = Finite 0" using dc by simp
  next
    fix v l
    assume "v < length G" and "dcol i ?s v = Finite l"
    with dinf dc have "v = i" "l = 0" by (auto split: if_splits)
    with i show "path_len G i v l" by (simp add: path_len.start)
  qed
  from wf fr qok snd nost show ?thesis
    by (simp add: dijkstra_inv_def closed_except_def below_queue_def)
qed

lemma dijkstra_run:
  assumes wf: "wf_graph i G" and inf: "\<forall>v<length G. distToGoal (G ! v) ! i = Infinity"
  shows "\<exists>rm. dijkstra i G = Some rm \<and> frame i G rm \<and> shortest G i rm"
proof -
  from wf have i: "i < length G" and col: "i < length (distToGoal (G ! i))"
    by (simp_all add: wf_graph_def)
  from dijkstra_loop_total[OF dijkstra_inv_init[OF wf inf]]
  obtain s' where run: "dijkstra_loop i
           \<lparr>s_roadmap = G[i := (G ! i)\<lparr>distToGoal := (distToGoal (G ! i))[i := Finite 0]\<rparr>],
            s_Q = Q_insert (Finite 0, i) [],
            s_posInQ = (replicate (length G) None)[i := Some (Finite 0, i)]\<rparr> = Some s'"
    and inv: "dijkstra_inv G i s'" and empty: "s_Q s' = []" by blast
  have "dijkstra i G = Some (s_roadmap s')"
    using i col run by (simp add: dijkstra_def)
  moreover have "frame i G (s_roadmap s')" using inv by (simp add: dijkstra_inv_def)
  moreover have "shortest G i (s_roadmap s')" using inv empty by (rule dijkstra_inv_final)
  ultimately show ?thesis by blast
qed

lemma wf_graph_frame:
  assumes "wf_graph k G" and "frame i G rm"
  shows "wf_graph k rm"
  using assms by (simp add: wf_graph_def frame_def same_graph_def)

lemma shortest_same_graph:
  assumes "same_graph G rm1" and "shortest rm1 k rm"
  shows "shortest G k rm"
  using assms path_len_same_graph[OF assms(1)]
  by (simp add: shortest_def same_graph_def split: float.splits)

lemma shortest_column_eq:
  assumes "shortest G k rm1" and "\<forall>v<length G. distToGoal (rm ! v) ! k = distToGoal (rm1 ! v) ! k"
  shows "shortest G k rm"
  using assms by (simp add: shortest_def)

lemma shortest_nonneg:
  assumes "shortest G g rm" and "v < length G" and "distToGoal (rm ! v) ! g = Finite d"
  shows "0 \<le> d"
  using assms path_len_nonneg[of G g v d] by (auto simp: shortest_def)

lemma shortest_goal_zero:
  assumes "shortest G g rm" and "g < length G"
  shows "distToGoal (rm ! g) ! g = Finite 0"
proof -
  have p0: "path_len G g g 0" using assms(2) by (rule path_len.start)
  from assms have c: "case distToGoal (rm ! g) ! g of
          Finite d \<Rightarrow> path_len G g g d \<and> (\<forall>l. path_len G g g l \<longrightarrow> d \<le> l)
        | Infinity \<Rightarrow> (\<forall>l. \<not> path_len G g g l)"
    by (simp add: shortest_def)
  show ?thesis
  proof (cases "distToGoal (rm ! g) ! g")
    case (Finite d)
    with c have "path_len G g g d" "d \<le> 0" using p0 by auto
    with path_len_nonneg[of G g g d] Finite show ?thesis by simp
  next
    case Infinity
    with c p0 show ?thesis by auto
  qed
qed

lemma dijkstra_goals_run:
  assumes "distinct ks"
    and "\<forall>k \<in> set ks. wf_graph k G \<and> (\<forall>v<length G. distToGoal (G ! v) ! k = Infinity)"
  shows "\<exists>rm. dijkstra_goals ks G = Some rm \<and> same_graph G rm \<and>
           (\<forall>v<length G. length (distToGoal (rm ! v)) = length (distToGoal (G ! v))) \<and>
           (\<forall>k \<in> set ks. shortest G k rm) \<and>
           (\<forall>k. k \<notin> set ks \<longrightarrow> (\<forall>v<length G. distToGoal (rm ! v) ! k = distToGoal (G ! v) ! k))"
  using assms
proof (induction ks arbitrary: G)
  case Nil
  then show ?case by simp
next
  case (Cons i ks)
  from Cons.prems have wf: "wf_graph i G" and inf: "\<forall>v<length G. distToGoal (G ! v) ! i = Infinity"
    and ni: "i \<notin> set ks" and dks: "distinct ks"
    by simp_all
  from dijkstra_run[OF wf inf] obtain rm1 where run1: "dijkstra i G = Some rm1"
    and fr1: "frame i G rm1" and sh1: "shortest G i rm1" by blast
  have sg1: "same_graph G rm1" and len1: "length rm1 = length G"
    using fr1 by (simp_all add: frame_def same_graph_def)
  have pre: "\<forall>k \<in> set ks. wf_graph k rm1 \<and> (\<forall>v<length rm1. distToGoal (rm1 ! v) ! k = Infinity)"
  proof
    fix k
    assume k: "k \<in> set ks"
    with ni have "k \<noteq> i" by auto
    with Cons.prems(2) k fr1 len1 have "\<forall>v<length rm1. distToGoal (rm1 ! v) ! k = Infinity"
      by (simp add: frame_def)
    moreover have "wf_graph k rm1"
      using Cons.prems(2) k fr1 by (auto intro: wf_graph_frame)
    ultimately show "wf_graph k rm1 \<and> (\<forall>v<length rm1. distToGoal (rm1 ! v) ! k = Infinity)" by simp
  qed
  from Cons.IH[OF dks pre] obtain rm where run: "dijkstra_goals ks rm1 = Some rm"
    and sg: "same_graph rm1 rm"
    and lens: "\<forall>v<length rm1. length (distToGoal (rm ! v)) = length (distToGoal (rm1 ! v))"
    and sh: "\<forall>k \<in> set ks. shortest rm1 k rm"
    and keep: "\<forall>k. k \<notin> set ks \<longrightarrow> (\<forall>v<length rm1. distToGoal (rm ! v) ! k = distToGoal (rm1 ! v) ! k)"
    by blast
  have "dijkstra_goals (i # ks) G = Some rm" using run1 run by simp
  moreover have "same_graph G rm" using sg1 sg by (rule same_graph_trans)
  moreover have "\<forall>v<length G. length (distToGoal (rm ! v)) = length (distToGoal (G ! v))"
    using lens len1 fr1 by (simp add: frame_def)
  moreover have "\<forall>k \<in> set (i # ks). shortest G k rm"
  proof
    fix k
    assume "k \<in> set (i # ks)"
    then consider "k = i" | "k \<in> set ks" by auto
    then show "shortest G k rm"
    proof cases
      case 1
      have "\<forall>v<length G. distToGoal (rm ! v) ! i = distToGoal (rm1 ! v) ! i"
        using keep ni len1 by simp
      with sh1 1 show ?thesis by (auto intro: shortest_column_eq)
    next
      case 2
      with sh sg1 show ?thesis by (auto intro: shortest_same_graph)
    qed
  qed
  moreover have "\<forall>k. k \<notin> set (i # ks) \<longrightarrow>
      (\<forall>v<length G. distToGoal (rm ! v) ! k = distToGoal (G ! v) ! k)"
    using keep fr1 len1 by (simp add: frame_def)
  ultimately show ?case by blast
qed

lemma resize_empty: "resize 4 Infinity [] = replicate 4 Infinity"
  by (simp add: resize_def)

lemma connected_ready:
  assumes "fresh roadmap" and "4 \<le> length roadmap" and "k < 4"
  shows "wf_graph k (buildRoadmap_connect sim roadmap) \<and>
         (\<forall>v<length (buildRoadmap_connect sim roadmap).
             distToGoal (buildRoadmap_connect sim roadmap ! v) ! k = Infinity)"
  using assms
  by (auto simp: wf_graph_def buildRoadmap_connect_distToGoal buildRoadmap_connect_neighbors
      fresh_nth resize_empty)

lemma buildRoadmap_run:
  assumes "fresh roadmap" and "4 \<le> length roadmap"
  shows "\<exists>rm. buildRoadmap sim roadmap = Some rm \<and>
           same_graph (buildRoadmap_connect sim roadmap) rm \<and>
           (\<forall>v<length roadmap. length (distToGoal (rm ! v)) = 4) \<and>
           (\<forall>g<4. shortest rm g rm)"
proof -
  let ?G = "buildRoadmap_connect sim roadmap"
  have "\<forall>k \<in> set [0..<4]. wf_graph k ?G \<and> (\<forall>v<length ?G. distToGoal (?G ! v) ! k = Infinity)"
    using connected_ready[OF assms] by simp
  from dijkstra_goals_run[OF _ this] obtain rm where run: "dijkstra_goals [0..<4] ?G = Some rm"
    and sg: "same_graph ?G rm" and sh: "\<forall>k \<in> set [0..<4]. shortest ?G k rm"
    and ln: "\<forall>v<length ?G. length (distToGoal (rm ! v)) = length (distToGoal (?G ! v))"
    by auto
  have cols: "\<forall>v<length roadmap. length (distToGoal (rm ! v)) = 4"
    using ln assms(1) by (simp add: buildRoadmap_connect_distToGoal fresh_nth resize_empty)
  have "\<forall>g<4. shortest rm g rm"
  proof (intro allI impI)
    fix g :: nat
    assume "g < 4"
    with sh have "shortest ?G g rm" by simp
    then show "shortest rm g rm"
      using path_len_same_graph[OF sg] sg
      by (simp add: shortest_def same_graph_def split: float.splits)
  qed
  with run sg cols show ?thesis by (auto simp: buildRoadmap_def)
qed

text \<open>
  Below four vertices the loop over the four goals indexes the roadmap out of range, and
  \<open>buildRoadmap\<close> has no result.
\<close>

lemma dijkstra_goals_append:
  "dijkstra_goals (ks @ ls) roadmap = Option.bind (dijkstra_goals ks roadmap) (dijkstra_goals ls)"
proof (induction ks arbitrary: roadmap)
  case Nil
  then show ?case by simp
next
  case (Cons k ks)
  then show ?case by (cases "dijkstra k roadmap") simp_all
qed

lemma upt_4_split:
  assumes "n < 4"
  shows "[0..<4] = [0..<n] @ n # [Suc n..<4]"
proof -
  have "[0..<4] = [0..<n] @ [n..<4]"
    using assms upt_add_eq_append[of 0 n "4 - n"] by simp
  also have "[n..<4] = n # [Suc n..<4]" using assms by (simp add: upt_conv_Cons)
  finally show ?thesis .
qed

lemma buildRoadmap_needs_four_vertices:
  assumes "fresh roadmap" and "length roadmap < 4"
  shows "buildRoadmap sim roadmap = None"
proof -
  let ?G = "buildRoadmap_connect sim roadmap"
  let ?n = "length roadmap"
  have pre: "\<forall>k \<in> set [0..<?n]. wf_graph k ?G \<and> (\<forall>v<length ?G. distToGoal (?G ! v) ! k = Infinity)"
    using assms
    by (auto simp: wf_graph_def buildRoadmap_connect_distToGoal buildRoadmap_connect_neighbors
        fresh_nth resize_empty)
  from dijkstra_goals_run[OF _ pre] obtain rm where run: "dijkstra_goals [0..<?n] ?G = Some rm"
    and sg: "same_graph ?G rm" by auto
  have len: "length rm = ?n" using sg by (simp add: same_graph_def)
  have none: "dijkstra ?n rm = None" using len by (simp add: dijkstra_def)
  have "buildRoadmap sim roadmap = dijkstra_goals ([0..<?n] @ ?n # [Suc ?n..<4]) ?G"
    unfolding buildRoadmap_def using upt_4_split[OF assms(2)] by simp
  also have "\<dots> = None"
    unfolding dijkstra_goals_append run using none by simp
  finally show ?thesis .
qed

text \<open>
  C1: for a fresh roadmap of at least four vertices \<open>buildRoadmap\<close> returns; the
  roadmap it returns has the positions it was given and the visible vertices as neighbours;
  and for each of the four goals \<open>g\<close> and every vertex \<open>v\<close>, if \<open>v\<close> is reachable from
  \<open>g\<close> in that graph then \<open>distToGoal[v][g]\<close> is finite and is the least length of a path
  from \<open>g\<close> to \<open>v\<close>, and if \<open>v\<close> is unreachable then \<open>distToGoal[v][g]\<close> is infinite.
  The symmetry of the visibility query is not needed.
\<close>

theorem distToGoal_is_shortest_path_length:
  assumes "fresh roadmap" and "4 \<le> length roadmap"
  shows "\<exists>rm. buildRoadmap sim roadmap = Some rm \<and> length rm = length roadmap \<and>
           (\<forall>u<length roadmap. position (rm ! u) = position (roadmap ! u) \<and>
              neighbors (rm ! u) =
                filter (\<lambda>j. queryVisibility sim (position (roadmap ! u)) (position (roadmap ! j))
                               (getAgentRadius sim 0)) [0..<length roadmap]) \<and>
           (\<forall>g<4. \<forall>v<length roadmap.
              ((\<exists>l. path_len rm g v l) \<longrightarrow>
                 (\<exists>d. distToGoal (rm ! v) ! g = Finite d \<and> path_len rm g v d \<and>
                      (\<forall>l. path_len rm g v l \<longrightarrow> d \<le> l))) \<and>
              ((\<forall>l. \<not> path_len rm g v l) \<longrightarrow> distToGoal (rm ! v) ! g = Infinity))"
proof -
  from buildRoadmap_run[OF assms, of sim] obtain rm where run: "buildRoadmap sim roadmap = Some rm"
    and sg: "same_graph (buildRoadmap_connect sim roadmap) rm"
    and sh: "\<forall>g<4. shortest rm g rm" by blast
  have len: "length rm = length roadmap" using sg by (simp add: same_graph_def)
  have graph: "\<forall>u<length roadmap. position (rm ! u) = position (roadmap ! u) \<and>
      neighbors (rm ! u) =
        filter (\<lambda>j. queryVisibility sim (position (roadmap ! u)) (position (roadmap ! j))
                       (getAgentRadius sim 0)) [0..<length roadmap]"
    using sg assms(1) by (simp add: same_graph_def buildRoadmap_connect_neighbors fresh_nth)
  have "\<forall>g<4. \<forall>v<length roadmap.
      ((\<exists>l. path_len rm g v l) \<longrightarrow>
         (\<exists>d. distToGoal (rm ! v) ! g = Finite d \<and> path_len rm g v d \<and>
              (\<forall>l. path_len rm g v l \<longrightarrow> d \<le> l))) \<and>
      ((\<forall>l. \<not> path_len rm g v l) \<longrightarrow> distToGoal (rm ! v) ! g = Infinity)"
  proof (intro allI impI)
    fix g v :: nat
    assume g: "g < 4" and v: "v < length roadmap"
    with sh len have c: "case distToGoal (rm ! v) ! g of
          Finite d \<Rightarrow> path_len rm g v d \<and> (\<forall>l. path_len rm g v l \<longrightarrow> d \<le> l)
        | Infinity \<Rightarrow> (\<forall>l. \<not> path_len rm g v l)"
      by (simp add: shortest_def)
    show "((\<exists>l. path_len rm g v l) \<longrightarrow>
         (\<exists>d. distToGoal (rm ! v) ! g = Finite d \<and> path_len rm g v d \<and>
              (\<forall>l. path_len rm g v l \<longrightarrow> d \<le> l))) \<and>
      ((\<forall>l. \<not> path_len rm g v l) \<longrightarrow> distToGoal (rm ! v) ! g = Infinity)"
      using c by (cases "distToGoal (rm ! v) ! g") auto
  qed
  with run len graph show ?thesis by blast
qed

text \<open>
  The theorem behind the wall: from goal 0 the vertex 2 is at distance 5 and no path is
  shorter, and the vertex 3 on the other side is unreachable. And on the detour: vertex 3
  is at distance 3 from goal 0, which it does not see.
\<close>

theorem distToGoal_is_shortest_path_length_witness:
  "fresh line_roadmap \<and> 4 \<le> length line_roadmap \<and>
   buildRoadmap (agents_at [(1, 0)] wall_at_6) line_roadmap = Some line_built \<and>
   distToGoal (line_built ! 2) ! 0 = Finite 5 \<and>
   path_len line_built 0 2 5 \<and> \<not> (\<exists>l. path_len line_built 0 2 l \<and> l < 5) \<and>
   distToGoal (line_built ! 3) ! 0 = Infinity \<and>
   \<not> (\<exists>l. path_len line_built 0 3 l) \<and>
   fresh detour_roadmap \<and> 4 \<le> length detour_roadmap \<and>
   buildRoadmap (agents_at [(0, 0)] three_apart_blocked) detour_roadmap = Some detour_built \<and>
   distToGoal (detour_built ! 3) ! 0 = Finite 3 \<and>
   path_len detour_built 0 3 3 \<and> \<not> (\<exists>l. path_len detour_built 0 3 l \<and> l < 3)"
proof -
  have l: "4 \<le> length line_roadmap" by (simp add: line_roadmap_def)
  from distToGoal_is_shortest_path_length[OF fresh_line_roadmap l, of "agents_at [(1, 0)] wall_at_6"]
  have spec: "\<forall>g<4. \<forall>v<length line_roadmap.
      ((\<exists>l. path_len line_built g v l) \<longrightarrow>
         (\<exists>d. distToGoal (line_built ! v) ! g = Finite d \<and> path_len line_built g v d \<and>
              (\<forall>l. path_len line_built g v l \<longrightarrow> d \<le> l))) \<and>
      ((\<forall>l. \<not> path_len line_built g v l) \<longrightarrow> distToGoal (line_built ! v) ! g = Infinity)"
    by (simp add: line_built_eq)
  have d2: "distToGoal (line_built ! 2) ! 0 = Finite 5"
    and d3: "distToGoal (line_built ! 3) ! 0 = Infinity"
    by (simp_all add: line_built_def)
  have v: "(0::nat) < 4" "(2::nat) < length line_roadmap" "(3::nat) < length line_roadmap"
    by (simp_all add: line_roadmap_def)
  from spec v(1,2) d2 have "\<exists>l. path_len line_built 0 2 l" by force
  with spec v(1,2) d2 have p: "path_len line_built 0 2 5" and m: "\<forall>l. path_len line_built 0 2 l \<longrightarrow> 5 \<le> l"
    by force+
  from spec v(1,3) d3 have u: "\<not> (\<exists>l. path_len line_built 0 3 l)" by force
  from m have m': "\<not> (\<exists>l. path_len line_built 0 2 l \<and> l < 5)" by force
  have l2: "4 \<le> length detour_roadmap" by (simp add: detour_roadmap_def)
  from distToGoal_is_shortest_path_length[OF fresh_detour_roadmap l2, of "agents_at [(0, 0)] three_apart_blocked"]
  have spec2: "\<forall>g<4. \<forall>v<length detour_roadmap.
      ((\<exists>l. path_len detour_built g v l) \<longrightarrow>
         (\<exists>d. distToGoal (detour_built ! v) ! g = Finite d \<and> path_len detour_built g v d \<and>
              (\<forall>l. path_len detour_built g v l \<longrightarrow> d \<le> l))) \<and>
      ((\<forall>l. \<not> path_len detour_built g v l) \<longrightarrow> distToGoal (detour_built ! v) ! g = Infinity)"
    by (simp add: detour_built_eq)
  have e3: "distToGoal (detour_built ! 3) ! 0 = Finite 3" by (simp add: detour_built_def)
  have v3: "(3::nat) < length detour_roadmap" by (simp add: detour_roadmap_def)
  from spec2 v(1) v3 e3 have "\<exists>l. path_len detour_built 0 3 l" by force
  with spec2 v(1) v3 e3 have q: "path_len detour_built 0 3 3"
    and n: "\<forall>l. path_len detour_built 0 3 l \<longrightarrow> 3 \<le> l"
    by force+
  from n have n': "\<not> (\<exists>l. path_len detour_built 0 3 l \<and> l < 3)" by force
  from fresh_line_roadmap l line_built_eq d2 d3 p u m' fresh_detour_roadmap l2 detour_built_eq e3 q n'
  show ?thesis by simp
qed

text \<open>
  C8: for a fresh roadmap of at least four vertices and each of the four goals \<open>g\<close>,
  \<open>buildRoadmap\<close> returns a roadmap with \<open>distToGoal[g][g] = 0\<close>.
\<close>

theorem distToGoal_of_goal_is_zero:
  assumes "fresh roadmap" and "4 \<le> length roadmap" and "g < 4"
  shows "\<exists>rm. buildRoadmap sim roadmap = Some rm \<and> distToGoal (rm ! g) ! g = Finite 0"
proof -
  from buildRoadmap_run[OF assms(1,2), of sim] obtain rm where run: "buildRoadmap sim roadmap = Some rm"
    and sg: "same_graph (buildRoadmap_connect sim roadmap) rm"
    and sh: "\<forall>g<4. shortest rm g rm" by blast
  have len: "length rm = length roadmap" using sg by (simp add: same_graph_def)
  have g: "g < length rm" using assms(2,3) len by simp
  from sh assms(3) have "shortest rm g rm" by simp
  from shortest_goal_zero[OF this g] run show ?thesis by blast
qed

text \<open>
  The theorem for goal 3 behind the wall, and for goal 0 of the roadmap of
  \<open>setupScenario\<close>.
\<close>

theorem distToGoal_of_goal_is_zero_witness:
  "fresh line_roadmap \<and> 4 \<le> length line_roadmap \<and> (3::nat) < 4 \<and>
   buildRoadmap (agents_at [(1, 0)] wall_at_6) line_roadmap = Some line_built \<and>
   distToGoal (line_built ! 3) ! 3 = Finite 0 \<and>
   fresh setupScenario_roadmap \<and> 4 \<le> length setupScenario_roadmap \<and>
   (\<exists>rm. buildRoadmap (agents_at [(55, 55)] no_obstacles) setupScenario_roadmap = Some rm \<and>
      distToGoal (rm ! 0) ! 0 = Finite 0)"
proof -
  have l: "4 \<le> length line_roadmap" "4 \<le> length setupScenario_roadmap"
    by (simp_all add: line_roadmap_def setupScenario_roadmap_def)
  have g: "(3::nat) < 4" "(0::nat) < 4" by simp_all
  from distToGoal_of_goal_is_zero[OF fresh_line_roadmap l(1) g(1), of "agents_at [(1, 0)] wall_at_6"]
  have a: "distToGoal (line_built ! 3) ! 3 = Finite 0" by (simp add: line_built_eq)
  note b = distToGoal_of_goal_is_zero[OF fresh_setupScenario_roadmap l(2) g(2), of "agents_at [(55, 55)] no_obstacles"]
  from a b fresh_line_roadmap fresh_setupScenario_roadmap l line_built_eq show ?thesis by simp
qed

section \<open>The steering policy\<close>

lemma select_inv_step:
  assumes "select_inv sim roadmap goals i P acc" and "\<forall>p \<in> P. p < j"
  shows "select_inv sim roadmap goals i (insert j P)
           (if cost sim roadmap goals i j < fst acc \<and> visible sim roadmap i j
            then (cost sim roadmap goals i j, Some j) else acc)"
proof (cases "snd acc")
  case None
  with assms show ?thesis
    by (auto simp: select_inv_def float_not_less_Infinity)
next
  case (Some m)
  with assms show ?thesis
    by (auto simp: select_inv_def not_less intro: less_le_trans order.strict_trans dest: order.strict_implies_order)
qed

lemma minVertex_loop_inv:
  assumes "minVertex_loop sim roadmap goals i js acc = Some acc'"
    and "select_inv sim roadmap goals i P acc"
    and "sorted_wrt (<) js" and "\<forall>p \<in> P. \<forall>j \<in> set js. p < j"
  shows "select_inv sim roadmap goals i (P \<union> set js) acc'"
  using assms
proof (induction js arbitrary: P acc)
  case Nil
  then show ?case by simp
next
  case (Cons j js)
  let ?acc = "if cost sim roadmap goals i j < fst acc \<and> visible sim roadmap i j
              then (cost sim roadmap goals i j, Some j) else acc"
  from Cons.prems(1) have guard: "i < length goals \<and> goals ! i < length (distToGoal (roadmap ! j))"
    by (auto split: if_splits)
  with Cons.prems(1) have run: "minVertex_loop sim roadmap goals i js ?acc = Some acc'"
    by simp
  have step: "select_inv sim roadmap goals i (insert j P) ?acc"
    using Cons.prems(2,4) by (intro select_inv_step) auto
  have "select_inv sim roadmap goals i (insert j P \<union> set js) acc'"
    using Cons.prems(3,4) by (intro Cons.IH[OF run step]) auto
  then show ?case by simp
qed

lemma minVertex_loop_result:
  assumes "minVertex_loop sim roadmap goals i [0..<n] (Infinity, None) = Some acc"
  shows "select_inv sim roadmap goals i {0..<n} acc"
proof -
  have "select_inv sim roadmap goals i ({} \<union> set [0..<n]) acc"
    by (rule minVertex_loop_inv[OF assms]) (simp_all add: select_inv_def)
  then show ?thesis by simp
qed

lemma minVertex_loop_defined:
  assumes "i < length goals" and "\<forall>j \<in> set js. goals ! i < length (distToGoal (roadmap ! j))"
  shows "\<exists>acc'. minVertex_loop sim roadmap goals i js acc = Some acc'"
  using assms by (induction js arbitrary: acc) auto

lemma minVertex_loop_exists:
  assumes "i < length goals"
    and "\<forall>j<length roadmap. goals ! i < length (distToGoal (roadmap ! j))"
  shows "\<exists>d mv. minVertex_loop sim roadmap goals i [0..<length roadmap] (Infinity, None) = Some (d, mv)
           \<and> select_inv sim roadmap goals i {0..<length roadmap} (d, mv)"
proof -
  obtain acc where run: "minVertex_loop sim roadmap goals i [0..<length roadmap] (Infinity, None) = Some acc"
    using minVertex_loop_defined[of i goals "[0..<length roadmap]" roadmap sim "(Infinity, None)"] assms
    by auto
  from minVertex_loop_result[OF run] run show ?thesis
    by (cases acc) auto
qed

lemma setPreferredVelocities_nth:
  "i < getNumAgents sim \<Longrightarrow>
   setPreferredVelocities sim roadmap goals ! i = prefVelocity sim roadmap goals i"
  by (simp add: setPreferredVelocities_def)



text \<open>
  The loop replaces its candidate only on a strictly smaller cost: when it ends with a
  vertex, a visible vertex of the same cost has no smaller index.
\<close>

lemma minVertex_loop_keeps_first:
  assumes "minVertex_loop sim roadmap goals i [0..<length roadmap] (Infinity, None) = Some (minDist, Some m)"
    and "v < length roadmap" and "visible sim roadmap i v"
    and "cost sim roadmap goals i v = cost sim roadmap goals i m"
  shows "m \<le> v"
proof (rule ccontr)
  assume "\<not> m \<le> v"
  then have "v < m" by simp
  with minVertex_loop_result[OF assms(1)] assms(2,3)
  have "cost sim roadmap goals i m < cost sim roadmap goals i v"
    by (auto simp: select_inv_def)
  with assms(4) show False by simp
qed





lemma cost_at_vertex:
  assumes "getAgentPosition sim i = position (roadmap ! j)"
  shows "cost sim roadmap goals i j = distToGoal (roadmap ! j) ! (goals ! i)"
proof -
  have "vsub (position (roadmap ! j)) (getAgentPosition sim i) = (0, 0)"
    using assms by (simp add: vsub_eq_0_iff)
  then have "abs_v (vsub (position (roadmap ! j)) (getAgentPosition sim i)) = 0"
    by (simp add: abs_v_eq_0_iff)
  then show ?thesis
    by (cases "distToGoal (roadmap ! j) ! (goals ! i)") (simp_all add: cost_def)
qed

lemma cost_Finite_0:
  assumes "cost sim roadmap goals i j \<le> Finite 0"
    and "Finite 0 \<le> distToGoal (roadmap ! j) ! (goals ! i)"
  shows "position (roadmap ! j) = getAgentPosition sim i \<and> cost sim roadmap goals i j = Finite 0"
proof (cases "distToGoal (roadmap ! j) ! (goals ! i)")
  case (Finite d)
  let ?a = "abs_v (vsub (position (roadmap ! j)) (getAgentPosition sim i))"
  from Finite assms have "?a + d \<le> 0" "0 \<le> d"
    by (simp_all add: cost_def)
  moreover have "0 \<le> ?a" by simp
  ultimately have "?a = 0" "d = 0" by linarith+
  then show ?thesis using Finite
    by (simp add: cost_def abs_v_eq_0_iff vsub_eq_0_iff)
next
  case Infinity
  with assms(1) show ?thesis by (simp add: cost_def)
qed

lemma zero_velocity_on_table:
  assumes "i < length goals" and "goals ! i < length roadmap"
    and "\<forall>j<length roadmap. goals ! i < length (distToGoal (roadmap ! j))"
    and "getAgentPosition sim i = position (roadmap ! (goals ! i))"
    and "visible sim roadmap i (goals ! i)"
    and "distToGoal (roadmap ! (goals ! i)) ! (goals ! i) = Finite 0"
    and "\<forall>j<length roadmap. Finite 0 \<le> distToGoal (roadmap ! j) ! (goals ! i)"
    and "\<forall>j<goals ! i. position (roadmap ! j) \<noteq> position (roadmap ! (goals ! i))"
  shows "prefVelocity sim roadmap goals i = Some (Velocity (0, 0))"
proof -
  let ?g = "goals ! i"
  obtain d mv where run: "minVertex_loop sim roadmap goals i [0..<length roadmap] (Infinity, None) = Some (d, mv)"
    and inv: "select_inv sim roadmap goals i {0..<length roadmap} (d, mv)"
    using minVertex_loop_exists[OF assms(1,3)] by blast
  have cg: "cost sim roadmap goals i ?g = Finite 0"
    using cost_at_vertex[OF assms(4)] assms(6) by simp
  have "mv \<noteq> None"
  proof
    assume "mv = None"
    with inv assms(2,5) have "cost sim roadmap goals i ?g = Infinity"
      by (simp add: select_inv_def)
    with cg show False by simp
  qed
  then obtain m where mv: "mv = Some m" by auto
  from inv mv assms(2,5) cg have m: "m < length roadmap"
    and le: "cost sim roadmap goals i m \<le> Finite 0"
    and first: "\<forall>j<length roadmap. j < m \<longrightarrow> visible sim roadmap i j \<longrightarrow>
       cost sim roadmap goals i m < cost sim roadmap goals i j"
    by (auto simp: select_inv_def)
  from cost_Finite_0[OF le] assms(7) m
  have pm: "position (roadmap ! m) = getAgentPosition sim i" and cm: "cost sim roadmap goals i m = Finite 0"
    by auto
  have "m = ?g"
  proof (rule ccontr)
    assume ne: "m \<noteq> ?g"
    show False
    proof (cases "m < ?g")
      case True
      with assms(8) pm assms(4) show False by auto
    next
      case False
      with ne have "?g < m" by simp
      with first assms(2,5) have "cost sim roadmap goals i m < cost sim roadmap goals i ?g" by blast
      with cm cg show False by simp
    qed
  qed
  with run mv pm assms(1) show ?thesis
    by (simp add: prefVelocity_def absSq_eq_0_iff vsub_eq_0_iff)
qed

text \<open>
  The zero vector is returned on the index test \<open>minVertex == goals[i]\<close> (line 329), not
  on the positions. On a roadmap that \<open>buildRoadmap\<close> returned, an agent standing exactly
  on its goal vertex, which it sees, gets the zero vector whenever the selection loop
  selects the goal itself, which it does if no vertex of lower index lies at the goal's
  position.
\<close>

lemma zero_velocity_at_goal:
  assumes "fresh roadmap0" and "4 \<le> length roadmap0"
    and "buildRoadmap sim roadmap0 = Some roadmap"
    and "i < length goals" and "goals ! i < 4"
    and "getAgentPosition sim i = position (roadmap ! (goals ! i))"
    and "visible sim roadmap i (goals ! i)"
    and "\<forall>j<goals ! i. position (roadmap ! j) \<noteq> position (roadmap ! (goals ! i))"
  shows "prefVelocity sim roadmap goals i = Some (Velocity (0, 0))"
proof -
  let ?g = "goals ! i"
  from buildRoadmap_run[OF assms(1,2), of sim] assms(3)
  have sg: "same_graph (buildRoadmap_connect sim roadmap0) roadmap"
    and cols: "\<forall>v<length roadmap0. length (distToGoal (roadmap ! v)) = 4"
    and sh: "\<forall>g<4. shortest roadmap g roadmap" by auto
  have len: "length roadmap = length roadmap0" using sg by (simp add: same_graph_def)
  have g: "?g < length roadmap" using assms(2,5) len by simp
  have shg: "shortest roadmap ?g roadmap" using sh assms(5) by simp
  have c: "\<forall>j<length roadmap. ?g < length (distToGoal (roadmap ! j))"
    using cols len assms(5) by simp
  have z: "distToGoal (roadmap ! ?g) ! ?g = Finite 0"
    using shg g by (rule shortest_goal_zero)
  have nn: "\<forall>j<length roadmap. Finite 0 \<le> distToGoal (roadmap ! j) ! ?g"
  proof (intro allI impI)
    fix j
    assume j: "j < length roadmap"
    show "Finite 0 \<le> distToGoal (roadmap ! j) ! ?g"
    proof (cases "distToGoal (roadmap ! j) ! ?g")
      case (Finite d)
      with shortest_nonneg[OF shg j] show ?thesis by simp
    next
      case Infinity
      then show ?thesis by simp
    qed
  qed
  from zero_velocity_on_table[OF assms(4) g c assms(6,7) z nn assms(8)] show ?thesis .
qed

text \<open>
  So it is for an agent on goal 2 of the roadmap behind the wall.
\<close>

lemma zero_velocity_at_goal_example:
  "fresh line_roadmap \<and> 4 \<le> length line_roadmap \<and>
   buildRoadmap (agents_at [(5, 0)] wall_at_6) line_roadmap = Some line_built \<and>
   getAgentPosition (agents_at [(5, 0)] wall_at_6) 0 = position (line_built ! ([2] ! 0)) \<and>
   visible (agents_at [(5, 0)] wall_at_6) line_built 0 ([2] ! 0) \<and>
   prefVelocity (agents_at [(5, 0)] wall_at_6) line_built [2] 0 = Some (Velocity (0, 0))"
proof -
  have f: "fresh line_roadmap" by (simp add: fresh_def line_roadmap_def vertex_at_def)
  have l: "4 \<le> length line_roadmap" by (simp add: line_roadmap_def)
  have b: "buildRoadmap (agents_at [(5, 0)] wall_at_6) line_roadmap = Some line_built"
    by (simp add: line_roadmap_def line_built_def run_simps)
  have h: "(0::nat) < length [2::nat]" "[2::nat] ! 0 < 4"
    "getAgentPosition (agents_at [(5, 0)] wall_at_6) 0 = position (line_built ! ([2] ! 0))"
    "visible (agents_at [(5, 0)] wall_at_6) line_built 0 ([2] ! 0)"
    "\<forall>j<[2::nat] ! 0. position (line_built ! j) \<noteq> position (line_built ! ([2] ! 0))"
    by (simp_all add: line_built_def steer_simps less_Suc_eq numeral_eq_Suc all_conj_distrib)
  from zero_velocity_at_goal[OF f l b h] f l b h(3,4) show ?thesis by simp
qed


text \<open>
  C6, as the code has it. With the goal index in range the policy always yields a velocity.
  If no vertex is visible from the agent it is the zero vector. If the selected vertex lies
  at the agent's position and is not the agent's goal, and the goal vertex lies elsewhere,
  it is the normalized difference from the agent's position to the goal vertex's position,
  a vector of length 1.
\<close>

theorem degenerate_cases_fall_back:
  assumes "i < length goals"
    and "\<forall>j<length roadmap. goals ! i < length (distToGoal (roadmap ! j))"
  shows "(goals ! i < length roadmap \<longrightarrow> (\<exists>vel. prefVelocity sim roadmap goals i = Some vel)) \<and>
         ((\<forall>j<length roadmap. \<not> visible sim roadmap i j) \<longrightarrow>
            prefVelocity sim roadmap goals i = Some (Velocity (0, 0))) \<and>
         (\<forall>d m. minVertex_loop sim roadmap goals i [0..<length roadmap] (Infinity, None) = Some (d, Some m) \<and>
            position (roadmap ! m) = getAgentPosition sim i \<and> m \<noteq> goals ! i \<and>
            goals ! i < length roadmap \<and>
            position (roadmap ! (goals ! i)) \<noteq> getAgentPosition sim i \<longrightarrow>
            prefVelocity sim roadmap goals i =
              Some (normalize_v (vsub (position (roadmap ! (goals ! i))) (getAgentPosition sim i))) \<and>
            (\<exists>u. normalize_v (vsub (position (roadmap ! (goals ! i))) (getAgentPosition sim i)) = Velocity u \<and>
                 abs_v u = 1))"
proof (intro conjI impI allI)
  assume g: "goals ! i < length roadmap"
  obtain d mv where "minVertex_loop sim roadmap goals i [0..<length roadmap] (Infinity, None) = Some (d, mv)"
    using minVertex_loop_exists[OF assms] by blast
  with g assms(1) show "\<exists>vel. prefVelocity sim roadmap goals i = Some vel"
    by (cases mv) (simp_all add: prefVelocity_def)
next
  assume blind: "\<forall>j<length roadmap. \<not> visible sim roadmap i j"
  obtain d mv where run: "minVertex_loop sim roadmap goals i [0..<length roadmap] (Infinity, None) = Some (d, mv)"
    and inv: "select_inv sim roadmap goals i {0..<length roadmap} (d, mv)"
    using minVertex_loop_exists[OF assms] by blast
  from inv blind have "mv = None"
    by (cases mv) (auto simp: select_inv_def)
  with run show "prefVelocity sim roadmap goals i = Some (Velocity (0, 0))"
    by (simp add: prefVelocity_def)
next
  fix d m
  assume h: "minVertex_loop sim roadmap goals i [0..<length roadmap] (Infinity, None) = Some (d, Some m) \<and>
      position (roadmap ! m) = getAgentPosition sim i \<and> m \<noteq> goals ! i \<and>
      goals ! i < length roadmap \<and>
      position (roadmap ! (goals ! i)) \<noteq> getAgentPosition sim i"
  then show "prefVelocity sim roadmap goals i =
      Some (normalize_v (vsub (position (roadmap ! (goals ! i))) (getAgentPosition sim i)))"
    using assms(1) by (simp add: prefVelocity_def absSq_eq_0_iff vsub_eq_0_iff)
  from h have "vsub (position (roadmap ! (goals ! i))) (getAgentPosition sim i) \<noteq> (0, 0)"
    by (simp add: vsub_eq_0_iff)
  then show "\<exists>u. normalize_v (vsub (position (roadmap ! (goals ! i))) (getAgentPosition sim i)) = Velocity u \<and>
      abs_v u = 1"
    by (rule normalize_unit)
qed

text \<open>
  The theorem for an agent that sees no vertex across the wall, and for an agent standing
  on vertex 1 and heading for goal 2: it is sent along \<open>(1, 0)\<close>.
\<close>

theorem degenerate_cases_fall_back_witness:
  "prefVelocity (agents_at [(8, 0)] wall_at_6) twin_built [1] 0 = Some (Velocity (0, 0)) \<and>
   minVertex_loop (agents_at [(3, 0)] wall_at_6) line_built [2] 0 [0..<length line_built]
     (Infinity, None) = Some (Finite 2, Some 1) \<and>
   position (line_built ! 1) = getAgentPosition (agents_at [(3, 0)] wall_at_6) 0 \<and>
   (1::nat) \<noteq> [2] ! 0 \<and>
   prefVelocity (agents_at [(3, 0)] wall_at_6) line_built [2] 0 = Some (Velocity (1, 0)) \<and>
   abs_v (1, 0) = 1"
proof -
  have g1: "(0::nat) < length [1::nat]"
    "\<forall>j<length twin_built. [1::nat] ! 0 < length (distToGoal (twin_built ! j))"
    by (simp_all add: twin_built_def less_Suc_eq numeral_eq_Suc all_conj_distrib)
  have blind: "\<forall>j<length twin_built. \<not> visible (agents_at [(8, 0)] wall_at_6) twin_built 0 j"
    by (simp add: twin_built_def steer_simps less_Suc_eq numeral_eq_Suc all_conj_distrib)
  have a: "prefVelocity (agents_at [(8, 0)] wall_at_6) twin_built [1] 0 = Some (Velocity (0, 0))"
    using degenerate_cases_fall_back[OF g1, of "agents_at [(8, 0)] wall_at_6"] blind by blast
  have g2: "(0::nat) < length [2::nat]"
    "\<forall>j<length line_built. [2::nat] ! 0 < length (distToGoal (line_built ! j))"
    by (simp_all add: line_built_def less_Suc_eq numeral_eq_Suc all_conj_distrib)
  have run: "minVertex_loop (agents_at [(3, 0)] wall_at_6) line_built [2] 0 [0..<length line_built]
     (Infinity, None) = Some (Finite 2, Some 1)"
    by (simp add: line_built_def steer_simps)
  have h: "position (line_built ! 1) = getAgentPosition (agents_at [(3, 0)] wall_at_6) 0"
    "(1::nat) \<noteq> [2] ! 0" "[2::nat] ! 0 < length line_built"
    "position (line_built ! ([2] ! 0)) \<noteq> getAgentPosition (agents_at [(3, 0)] wall_at_6) 0"
    by (simp_all add: line_built_def agents_at_def)
  have n: "normalize_v (vsub (position (line_built ! ([2] ! 0))) (getAgentPosition (agents_at [(3, 0)] wall_at_6) 0)) =
      Velocity (1, 0)"
    by (simp add: line_built_def steer_simps)
  from degenerate_cases_fall_back[OF g2, of "agents_at [(3, 0)] wall_at_6"] run h
  have b: "prefVelocity (agents_at [(3, 0)] wall_at_6) line_built [2] 0 =
      Some (normalize_v (vsub (position (line_built ! ([2] ! 0))) (getAgentPosition (agents_at [(3, 0)] wall_at_6) 0)))"
    by blast
  from a b n run h show ?thesis by simp
qed

text \<open>
  C6 as stated fails where the goal vertex lies at the agent's position too: the selected
  vertex 0 lies at the agent's position and is not the goal 1, and what the code normalizes
  is the zero vector, which has no direction.
\<close>

theorem coincident_goal_not_unit:
  "minVertex_loop (agents_at [(0, 0)] no_obstacles) twin_built [1] 0 [0..<length twin_built]
     (Infinity, None) = Some (Finite 0, Some 0) \<and>
   absSq (vsub (position (twin_built ! 0)) (getAgentPosition (agents_at [(0, 0)] no_obstacles) 0)) = 0 \<and>
   (0::nat) \<noteq> [1] ! 0 \<and>
   prefVelocity (agents_at [(0, 0)] no_obstacles) twin_built [1] 0 = Some NotANumber"
  by (simp add: twin_built_def steer_simps)

text \<open>
  Every branch but one yields the zero vector or a vector of length 1: no visible vertex
  and the agent on its selected goal give the zero vector, and the branch of lines 337 to 339
  normalizes a vector that line 327 has tested to be non-zero. The branch of lines 332 to
  334 normalizes without a test; it yields a vector of length 1 unless the goal vertex lies
  exactly at the agent's position.
\<close>

lemma magnitude_zero_or_one:
  assumes "i < length goals" and "goals ! i < length roadmap"
    and "\<forall>j<length roadmap. goals ! i < length (distToGoal (roadmap ! j))"
    and "\<forall>d m. minVertex_loop sim roadmap goals i [0..<length roadmap] (Infinity, None) = Some (d, Some m) \<longrightarrow>
           m = goals ! i \<or> position (roadmap ! m) \<noteq> getAgentPosition sim i \<or>
           position (roadmap ! (goals ! i)) \<noteq> getAgentPosition sim i"
  shows "\<exists>v. prefVelocity sim roadmap goals i = Some (Velocity v) \<and>
           (abs_v v = 0 \<or> abs_v v = 1) \<and> abs_v v \<le> 1"
proof -
  let ?p = "getAgentPosition sim i"
  obtain d mv where run: "minVertex_loop sim roadmap goals i [0..<length roadmap] (Infinity, None) = Some (d, mv)"
    using minVertex_loop_exists[OF assms(1,3)] by blast
  have zero: "abs_v (0, 0) = 0" by (simp add: abs_v_eq_0_iff)
  show ?thesis
  proof (cases mv)
    case None
    with run zero show ?thesis by (simp add: prefVelocity_def)
  next
    case (Some m)
    show ?thesis
    proof (cases "position (roadmap ! m) = ?p")
      case False
      then have "vsub (position (roadmap ! m)) ?p \<noteq> (0, 0)" by (simp add: vsub_eq_0_iff)
      from normalize_unit[OF this] obtain u where
        "normalize_v (vsub (position (roadmap ! m)) ?p) = Velocity u" "abs_v u = 1" by blast
      with run Some False show ?thesis
        by (simp add: prefVelocity_def absSq_eq_0_iff vsub_eq_0_iff)
    next
      case True
      show ?thesis
      proof (cases "m = goals ! i")
        case True
        with run Some \<open>position (roadmap ! m) = ?p\<close> assms(1) zero show ?thesis
          by (simp add: prefVelocity_def absSq_eq_0_iff vsub_eq_0_iff)
      next
        case False
        with assms(4) run Some True have "position (roadmap ! (goals ! i)) \<noteq> ?p" by blast
        then have "vsub (position (roadmap ! (goals ! i))) ?p \<noteq> (0, 0)" by (simp add: vsub_eq_0_iff)
        from normalize_unit[OF this] obtain u where
          "normalize_v (vsub (position (roadmap ! (goals ! i))) ?p) = Velocity u" "abs_v u = 1" by blast
        with run Some True False assms(1,2) show ?thesis
          by (simp add: prefVelocity_def absSq_eq_0_iff vsub_eq_0_iff)
      qed
    qed
  qed
qed

text \<open>
  So it is for an agent at \<open>(1, 0)\<close> heading for goal 2.
\<close>

lemma magnitude_zero_or_one_example:
  "prefVelocity (agents_at [(1, 0)] wall_at_6) line_built [2] 0 = Some (Velocity (1, 0)) \<and>
   abs_v (1, 0) = 1 \<and> abs_v (1, 0) \<le> 1"
proof -
  have g: "(0::nat) < length [2::nat]" "[2::nat] ! 0 < length line_built"
    "\<forall>j<length line_built. [2::nat] ! 0 < length (distToGoal (line_built ! j))"
    by (simp_all add: line_built_def less_Suc_eq numeral_eq_Suc all_conj_distrib)
  have run: "minVertex_loop (agents_at [(1, 0)] wall_at_6) line_built [2] 0 [0..<length line_built]
     (Infinity, None) = Some (Finite 4, Some 1)"
    by (simp add: line_built_def steer_simps)
  have h: "\<forall>d m. minVertex_loop (agents_at [(1, 0)] wall_at_6) line_built [2] 0 [0..<length line_built]
       (Infinity, None) = Some (d, Some m) \<longrightarrow>
     m = [2] ! 0 \<or> position (line_built ! m) \<noteq> getAgentPosition (agents_at [(1, 0)] wall_at_6) 0 \<or>
     position (line_built ! ([2] ! 0)) \<noteq> getAgentPosition (agents_at [(1, 0)] wall_at_6) 0"
    unfolding run by (simp add: line_built_def agents_at_def)
  have e: "prefVelocity (agents_at [(1, 0)] wall_at_6) line_built [2] 0 = Some (Velocity (1, 0))"
    by (simp add: line_built_def steer_simps)
  from magnitude_zero_or_one[OF g h] e show ?thesis by auto
qed


section \<open>The termination test\<close>

lemma reachedGoal_loop_eq:
  assumes "\<forall>i \<in> set ks. i < length goals \<and> goals ! i < length roadmap"
  shows "reachedGoal_loop sim roadmap goals ks =
     Some (\<forall>i \<in> set ks. absSq (vsub (getAgentPosition sim i) (position (roadmap ! (goals ! i)))) \<le> 400)"
  using assms by (induction ks) (auto simp: not_less)

lemma within_20_iff: "(abs_v v \<le> 20) = (absSq v \<le> 400)"
proof
  assume "abs_v v \<le> 20"
  then have "absSq v \<le> 20\<^sup>2" unfolding abs_v_def by (rule sqrt_le_D)
  then show "absSq v \<le> 400" by simp
next
  assume "absSq v \<le> 400"
  then have "absSq v \<le> 20\<^sup>2" by simp
  then show "abs_v v \<le> 20" unfolding abs_v_def by (intro real_le_lsqrt) simp_all
qed

text \<open>
  C9: with a goal for every agent and every goal a vertex of the roadmap, \<open>reachedGoal\<close>
  returns true if and only if for every agent the squared distance between its position and
  the position of its goal vertex is at most 400, that is, the distance is at most 20; so a
  single agent beyond that makes it return false.
\<close>

theorem reachedGoal_iff_all_within_tolerance:
  assumes "getNumAgents sim \<le> length goals"
    and "\<forall>i<getNumAgents sim. goals ! i < length roadmap"
  shows "reachedGoal sim roadmap goals =
           Some (\<forall>i<getNumAgents sim.
              absSq (vsub (getAgentPosition sim i) (position (roadmap ! (goals ! i)))) \<le> 400) \<and>
         reachedGoal sim roadmap goals =
           Some (\<forall>i<getNumAgents sim.
              abs_v (vsub (getAgentPosition sim i) (position (roadmap ! (goals ! i)))) \<le> 20)"
proof -
  have "\<forall>i \<in> set [0..<getNumAgents sim]. i < length goals \<and> goals ! i < length roadmap"
    using assms by auto
  from reachedGoal_loop_eq[OF this, of sim] show ?thesis
    by (simp add: reachedGoal_def Ball_def within_20_iff)
qed

text \<open>
  The theorem for two agents: both at squared distance at most 400 (144 and 400), and the
  second one at squared distance 441.
\<close>

theorem reachedGoal_iff_all_within_tolerance_witness:
  "reachedGoal (agents_at [(5, 12), (9, 20)] no_obstacles) line_built [2, 3] = Some True \<and>
   reachedGoal (agents_at [(5, 12), (9, 21)] no_obstacles) line_built [2, 3] = Some False \<and>
   absSq (vsub (getAgentPosition (agents_at [(5, 12), (9, 21)] no_obstacles) 1)
     (position (line_built ! ([2, 3] ! 1)))) = 441"
proof -
  have g: "getNumAgents (agents_at [(5, 12), (9, 20)] no_obstacles) \<le> length [2::nat, 3]"
    "\<forall>i<getNumAgents (agents_at [(5, 12), (9, 20)] no_obstacles). [2::nat, 3] ! i < length line_built"
    "getNumAgents (agents_at [(5, 12), (9, 21)] no_obstacles) \<le> length [2::nat, 3]"
    "\<forall>i<getNumAgents (agents_at [(5, 12), (9, 21)] no_obstacles). [2::nat, 3] ! i < length line_built"
    by (simp_all add: agents_at_def line_built_def less_Suc_eq numeral_eq_Suc all_conj_distrib)
  have n: "getNumAgents (agents_at [(5, 12), (9, 20)] no_obstacles) = 2"
    "getNumAgents (agents_at [(5, 12), (9, 21)] no_obstacles) = 2"
    by (simp_all add: agents_at_def)
  have two: "\<And>P. (\<forall>i<2::nat. P i) = (P 0 \<and> P 1)"
    by (auto simp: less_Suc_eq numeral_2_eq_2)
  from reachedGoal_iff_all_within_tolerance[OF g(1,2)] reachedGoal_iff_all_within_tolerance[OF g(3,4)]
  show ?thesis
    unfolding n two by (simp add: agents_at_def line_built_def vsub_def absSq_def)
qed

end
